theory Spec2Isabelle
  imports Complex_Main "HOL-Library.Log_Nat"
begin

section \<open>Data model\<close>

text \<open>
  The repository holds two variants of one React component \<^verbatim>\<open>GameCanvas\<close>:
  \<^verbatim>\<open>src/components/GameCanvas.tsx\<close> (grid 30 x 20, 10 points per food, a one-cell initial
  snake, no pause) and a second file (grid 40 x 25, 50 points per food, a three-cell initial
  snake, pause, touch and on-screen pad). Their game logic is the same text up to these
  constants, so the model takes the constants from a configuration record.

  Coordinates and scores are JavaScript numbers that only ever hold integers (integer
  literals, sums with -1, 0, 1, and results of \<^verbatim>\<open>Math.floor\<close>); they are modelled as
  \<^typ>\<open>int\<close>. Time stamps and the draws of \<^verbatim>\<open>Math.random()\<close> are modelled as
  \<^typ>\<open>real\<close>; the product of a draw and a grid constant in \<^verbatim>\<open>spawnFood\<close> is rounded
  as binary64 arithmetic rounds it (section Binary64 arithmetic).
\<close>

datatype GameState = START | PLAYING | PAUSED | GAME_OVER

text \<open>\<^verbatim>\<open>type PowerUpType = 'GHOST' | 'WRAP' | null\<close>: \<^verbatim>\<open>null\<close> is \<^term>\<open>None\<close>.\<close>

datatype PowerUpType = GHOST | WRAP

text \<open>\<^verbatim>\<open>type FoodType = 'NORMAL' | 'GHOST' | 'WRAP'\<close>.\<close>

datatype FoodType = F_NORMAL | F_GHOST | F_WRAP

text \<open>\<^verbatim>\<open>type Point = { x: number; y: number }\<close>; the fields are named \<open>px\<close>, \<open>py\<close>.\<close>

record Point =
  px :: int
  py :: int

text \<open>The object held by \<^verbatim>\<open>foodRef\<close>: \<^verbatim>\<open>{ x: number; y: number; type: FoodType }\<close>.\<close>

record Food =
  fx :: int
  fy :: int
  ftype :: FoodType

datatype Variant = Classic | Dashboard

record config =
  variant :: Variant
  GRID_WIDTH :: int
  GRID_HEIGHT :: int
  FOOD_SCORE :: int
  INITIAL_SNAKE :: "Point list"

definition INITIAL_SPEED :: real where
  "INITIAL_SPEED = 100"

text \<open>\<^verbatim>\<open>src/components/GameCanvas.tsx\<close>.\<close>

definition classic :: config where
  "classic = \<lparr>variant = Classic, GRID_WIDTH = 30, GRID_HEIGHT = 20, FOOD_SCORE = 10,
     INITIAL_SNAKE = [\<lparr>px = 10, py = 10\<rparr>]\<rparr>"

text \<open>The second variant of the component (with pause, touch and pad controls).\<close>

definition dashboard :: config where
  "dashboard = \<lparr>variant = Dashboard, GRID_WIDTH = 40, GRID_HEIGHT = 25, FOOD_SCORE = 50,
     INITIAL_SNAKE = [\<lparr>px = 5, py = 10\<rparr>, \<lparr>px = 4, py = 10\<rparr>, \<lparr>px = 3, py = 10\<rparr>]\<rparr>"

text \<open>
  The state of the component. The first four fields are React state (\<^verbatim>\<open>useState\<close>), the
  fields named \<open>...Ref\<close> are the mutable refs (\<^verbatim>\<open>useRef\<close>). The remaining fields make
  the environment explicit:

  \<^item> \<open>loopScore\<close> is the value of \<^verbatim>\<open>score\<close> that the running game loop sees. The function
    \<^verbatim>\<open>loop\<close> is created inside an effect whose dependency array is
    \<^verbatim>\<open>[gameState, activePowerUp]\<close>, and it calls the \<^verbatim>\<open>gameOver\<close> of the render in which
    that effect ran. \<^verbatim>\<open>gameOver\<close> reads the constant \<^verbatim>\<open>score\<close> of that same render: the
    score at the moment \<^verbatim>\<open>gameState\<close> or \<^verbatim>\<open>activePowerUp\<close> last changed. (The updater
    \<^verbatim>\<open>setScore(s => s + 10)\<close> is functional and always acts on the current score.)
    \<^verbatim>\<open>activePowerUp\<close> is itself a dependency, and \<^verbatim>\<open>highScore\<close> only changes together with
    \<^verbatim>\<open>gameState\<close>, so for these two the loop sees the current value.
  \<^item> \<open>localStorage\<close> is the entry \<^verbatim>\<open>'neon-snake-high-score'\<close> of the browser's store, and
    \<open>confetti\<close> counts the calls of \<^verbatim>\<open>confetti(...)\<close>.
  \<^item> \<open>powerUpTimeoutRef\<close> tells whether a timeout callback of \<^verbatim>\<open>activatePowerUp\<close> is
    pending.
  \<^item> \<open>rng\<close> is the sequence of values that the coming calls of \<^verbatim>\<open>Math.random()\<close>
    return.

  Sound (\<^verbatim>\<open>playSound\<close>) and drawing on the canvas read the state and never write it; they
  are left out.
\<close>

record game =
  gameState :: GameState
  score :: int
  highScore :: int
  activePowerUp :: "PowerUpType option"
  snakeRef :: "Point list"
  directionRef :: Point
  nextDirectionRef :: Point
  foodRef :: Food
  speedRef :: real
  lastRenderTimeRef :: real
  powerUpTimeoutRef :: bool
  touchStartRef :: "(real \<times> real) option"
  loopScore :: int
  localStorage :: int
  confetti :: nat
  rng :: "nat \<Rightarrow> real"

section \<open>Binary64 arithmetic\<close>

text \<open>
  A JavaScript number is a binary64 floating-point number, and \<^verbatim>\<open>a * b\<close> is the exact
  product rounded to the nearest such number. Sums of integer coordinates are exact; the
  product \<^verbatim>\<open>Math.random() * GRID_WIDTH\<close> is not, and the decimal literals \<^verbatim>\<open>0.85\<close> and
  \<^verbatim>\<open>0.70\<close> denote the binary64 numbers nearest to them.
\<close>

text \<open>
  Rounding to the nearest integer, a tie going to the even one.
\<close>

definition roundTiesToEven :: "real \<Rightarrow> int" where
  "roundTiesToEven q =
     (let f = \<lfloor>q\<rfloor>; r = q - of_int f
      in if r < 1 / 2 then f else if r > 1 / 2 then f + 1 else if even f then f else f + 1)"

text \<open>
  The binade of a positive number: the integer \<open>b\<close> with \<open>2 powi b \<le> x < 2 powi (b + 1)\<close>,
  computed from the bit length of the integer part, or of the inverse for \<open>x < 1\<close>.
\<close>

definition binade :: "real \<Rightarrow> int" where
  "binade x = (if 1 \<le> x then bitlen \<lfloor>x\<rfloor> - 1 else - bitlen (\<lceil>1 / x\<rceil> - 1))"

text \<open>
  The binary64 number nearest to a real number (round to nearest, ties to even): the
  significand has 53 bits, so the unit in the last place is \<open>2 powi (binade - 52)\<close>, and
  not below \<open>2 powi (-1074)\<close>, the spacing of the subnormal numbers. Overflow to
  \<^verbatim>\<open>Infinity\<close> is not modelled: the products below are smaller than the grid constants.
\<close>

definition round64 :: "real \<Rightarrow> real" where
  "round64 x =
     (if x = 0 then 0
      else
        let a = \<bar>x\<bar>;
            e = max (binade a - 52) (- 1074);
            n = roundTiesToEven (a / 2 powi e)
        in sgn x * of_int n * 2 powi e)"

text \<open>The product \<^verbatim>\<open>a * b\<close> of two numbers.\<close>

definition times64 :: "real \<Rightarrow> real \<Rightarrow> real" where
  "times64 a b = round64 (a * b)"

text \<open>
  The binary64 numbers (of finite size), and those among them that \<^verbatim>\<open>Math.random()\<close> can
  return: at least 0 and below 1.
\<close>

definition binary64 :: "real \<Rightarrow> bool" where
  "binary64 x \<longleftrightarrow> round64 x = x"

definition unitDraw :: "real \<Rightarrow> bool" where
  "unitDraw r \<longleftrightarrow> binary64 r \<and> 0 \<le> r \<and> r < 1"

section \<open>Game logic\<close>

text \<open>One call of \<^verbatim>\<open>Math.random()\<close>: the next value of the sequence, which advances.\<close>

definition Math_random :: "game \<Rightarrow> real \<times> game" where
  "Math_random s = (rng s 0, s\<lparr>rng := (\<lambda>n. rng s (Suc n))\<rparr>)"

text \<open>
  \<^verbatim>\<open>spawnFood\<close>: the first draw picks the kind, the second and third the cell. The draw is
  compared with the numbers the literals denote, and \<^verbatim>\<open>Math.floor\<close> is applied to the
  rounded product.
\<close>

definition spawnFood :: "config \<Rightarrow> game \<Rightarrow> game" where
  "spawnFood cfg s =
     (let (rand, s1) = Math_random s;
          ty = (if rand > round64 0.85 then F_GHOST
                else if rand > round64 0.70 then F_WRAP else F_NORMAL);
          (rx, s2) = Math_random s1;
          (ry, s3) = Math_random s2;
          newFood = \<lparr>fx = \<lfloor>times64 rx (of_int (GRID_WIDTH cfg))\<rfloor>,
                     fy = \<lfloor>times64 ry (of_int (GRID_HEIGHT cfg))\<rfloor>,
                     ftype = ty\<rparr>
      in s3\<lparr>foodRef := newFood\<rparr>)"

text \<open>
  \<^verbatim>\<open>activatePowerUp\<close>: nothing on \<^verbatim>\<open>null\<close>; otherwise the power-up becomes active, a pending
  timeout is cleared and a new one is set.
\<close>

definition activatePowerUp :: "PowerUpType option \<Rightarrow> game \<Rightarrow> game" where
  "activatePowerUp ty s =
     (case ty of
        None \<Rightarrow> s
      | Some t \<Rightarrow> s\<lparr>activePowerUp := Some t, powerUpTimeoutRef := True\<rparr>)"

definition resetGame :: "config \<Rightarrow> game \<Rightarrow> game" where
  "resetGame cfg s =
     (let s1 = s\<lparr>snakeRef := INITIAL_SNAKE cfg,
                 directionRef := \<lparr>px = 1, py = 0\<rparr>,
                 nextDirectionRef := \<lparr>px = 1, py = 0\<rparr>,
                 score := 0,
                 gameState := PLAYING,
                 speedRef := INITIAL_SPEED,
                 activePowerUp := None\<rparr>;
          s2 = spawnFood cfg s1
      in s2\<lparr>powerUpTimeoutRef := False\<rparr>)"

text \<open>
  \<^verbatim>\<open>gameOver\<close>, as called from \<^verbatim>\<open>loop\<close>: the \<^verbatim>\<open>score\<close> it compares and stores is the one
  its closure holds, \<open>loopScore\<close>.
\<close>

definition gameOver :: "game \<Rightarrow> game" where
  "gameOver s =
     (let s1 = s\<lparr>gameState := GAME_OVER\<rparr>
      in if loopScore s > highScore s
         then s1\<lparr>highScore := loopScore s,
                 localStorage := loopScore s,
                 confetti := Suc (confetti s)\<rparr>
         else s1)"

definition togglePause :: "game \<Rightarrow> game" where
  "togglePause s =
     (if gameState s = PLAYING then s\<lparr>gameState := PAUSED\<rparr>
      else if gameState s = PAUSED then s\<lparr>gameState := PLAYING\<rparr>
      else s)"

text \<open>\<^verbatim>\<open>handleDirectionChange\<close> of the second variant.\<close>

definition handleDirectionChange :: "Point \<Rightarrow> game \<Rightarrow> game" where
  "handleDirectionChange newDir s =
     (let currentDir = directionRef s
      in if px newDir \<noteq> 0 \<and> px currentDir \<noteq> 0 then s
         else if py newDir \<noteq> 0 \<and> py currentDir \<noteq> 0 then s
         else s\<lparr>nextDirectionRef := newDir\<rparr>)"

datatype Key = ArrowUp | ArrowDown | ArrowLeft | ArrowRight | Space | OtherKey

text \<open>\<^verbatim>\<open>handleKeyDown\<close> of \<^verbatim>\<open>GameCanvas.tsx\<close>: four independent tests, in this order.\<close>

definition handleKeyDown_classic :: "Key \<Rightarrow> game \<Rightarrow> game" where
  "handleKeyDown_classic key s =
     (if gameState s \<noteq> PLAYING then s
      else
        let currentDir = directionRef s;
            s1 = (if key = ArrowUp \<and> py currentDir = 0
                  then s\<lparr>nextDirectionRef := \<lparr>px = 0, py = -1\<rparr>\<rparr> else s);
            s2 = (if key = ArrowDown \<and> py currentDir = 0
                  then s1\<lparr>nextDirectionRef := \<lparr>px = 0, py = 1\<rparr>\<rparr> else s1);
            s3 = (if key = ArrowLeft \<and> px currentDir = 0
                  then s2\<lparr>nextDirectionRef := \<lparr>px = -1, py = 0\<rparr>\<rparr> else s2);
            s4 = (if key = ArrowRight \<and> px currentDir = 0
                  then s3\<lparr>nextDirectionRef := \<lparr>px = 1, py = 0\<rparr>\<rparr> else s3)
        in s4)"

text \<open>\<^verbatim>\<open>handleKeyDown\<close> of the second variant.\<close>

definition handleKeyDown_dashboard :: "config \<Rightarrow> Key \<Rightarrow> game \<Rightarrow> game" where
  "handleKeyDown_dashboard cfg key s =
     (if key = Space then
        (if gameState s = GAME_OVER \<or> gameState s = START then resetGame cfg s
         else togglePause s)
      else if gameState s \<noteq> PLAYING then s
      else
        let s1 = (if key = ArrowUp then handleDirectionChange \<lparr>px = 0, py = -1\<rparr> s else s);
            s2 = (if key = ArrowDown then handleDirectionChange \<lparr>px = 0, py = 1\<rparr> s1 else s1);
            s3 = (if key = ArrowLeft then handleDirectionChange \<lparr>px = -1, py = 0\<rparr> s2 else s2);
            s4 = (if key = ArrowRight then handleDirectionChange \<lparr>px = 1, py = 0\<rparr> s3 else s3)
        in s4)"

definition handleTouchStart :: "real \<Rightarrow> real \<Rightarrow> game \<Rightarrow> game" where
  "handleTouchStart clientX clientY s = s\<lparr>touchStartRef := Some (clientX, clientY)\<rparr>"

definition handleTouchEnd :: "real \<Rightarrow> real \<Rightarrow> game \<Rightarrow> game" where
  "handleTouchEnd clientX clientY s =
     (case touchStartRef s of
        None \<Rightarrow> s
      | Some (startX, startY) \<Rightarrow>
          let dx = clientX - startX; dy = clientY - startY
          in if \<bar>dx\<bar> < 30 \<and> \<bar>dy\<bar> < 30 then s
             else
               let s1 = (if \<bar>dx\<bar> > \<bar>dy\<bar>
                         then (if dx > 0 then handleDirectionChange \<lparr>px = 1, py = 0\<rparr> s
                               else handleDirectionChange \<lparr>px = -1, py = 0\<rparr> s)
                         else (if dy > 0 then handleDirectionChange \<lparr>px = 0, py = 1\<rparr> s
                               else handleDirectionChange \<lparr>px = 0, py = -1\<rparr> s))
               in s1\<lparr>touchStartRef := None\<rparr>)"

text \<open>
  The tests of \<^verbatim>\<open>loop\<close> on the candidate head. \<open>outOfBounds\<close> is the condition of the
  branch without WRAP, \<open>wrapEdges\<close> the four assignments of the branch with WRAP (in the
  source's order), and \<open>hitsSelf\<close> the \<^verbatim>\<open>for (let part of snakeRef.current)\<close> scan.
\<close>

definition outOfBounds :: "config \<Rightarrow> Point \<Rightarrow> bool" where
  "outOfBounds cfg newHead \<longleftrightarrow>
     px newHead < 0 \<or> px newHead \<ge> GRID_WIDTH cfg \<or> py newHead < 0 \<or> py newHead \<ge> GRID_HEIGHT cfg"

definition wrapEdges :: "config \<Rightarrow> Point \<Rightarrow> Point" where
  "wrapEdges cfg newHead =
     (let h1 = (if px newHead < 0 then newHead\<lparr>px := GRID_WIDTH cfg - 1\<rparr> else newHead);
          h2 = (if px h1 \<ge> GRID_WIDTH cfg then h1\<lparr>px := 0\<rparr> else h1);
          h3 = (if py h2 < 0 then h2\<lparr>py := GRID_HEIGHT cfg - 1\<rparr> else h2);
          h4 = (if py h3 \<ge> GRID_HEIGHT cfg then h3\<lparr>py := 0\<rparr> else h3)
      in h4)"

fun hitsSelf :: "Point \<Rightarrow> Point list \<Rightarrow> bool" where
  "hitsSelf newHead [] = False"
| "hitsSelf newHead (part # rest) =
     (if px newHead = px part \<and> py newHead = py part then True else hitsSelf newHead rest)"

text \<open>
  The candidate head of a move update: the pending direction is committed, added to the
  current head, and wrapped when WRAP is active. \<^verbatim>\<open>snakeRef.current[0]\<close> of an empty body is
  \<^verbatim>\<open>undefined\<close> and reading its field throws: \<^term>\<open>None\<close>.
\<close>

definition candidateHead :: "config \<Rightarrow> game \<Rightarrow> Point option" where
  "candidateHead cfg s =
     (case snakeRef s of
        [] \<Rightarrow> None
      | head # _ \<Rightarrow>
          let newHead = \<lparr>px = px head + px (nextDirectionRef s),
                         py = py head + py (nextDirectionRef s)\<rparr>
          in Some (if activePowerUp s = Some WRAP then wrapEdges cfg newHead else newHead))"

text \<open>
  The outcome of a move update. The source has no such value: \<open>Died\<close> stands for the two
  paths \<^verbatim>\<open>gameOver(); return;\<close>, and \<open>Moved grew\<close> for the path that reaches
  \<^verbatim>\<open>snakeRef.current = newSnake\<close>, with \<open>grew\<close> telling whether the food branch was taken.
\<close>

datatype StepResult = Moved bool | Died

text \<open>
  The move update of \<^verbatim>\<open>loop\<close>: the body of \<^verbatim>\<open>if (timeSinceLastRender > speedRef.current)\<close>
  after the assignment to \<^verbatim>\<open>lastRenderTimeRef\<close>. \<^term>\<open>None\<close> is the uncaught TypeError
  of an empty body.
\<close>

definition loop_move :: "config \<Rightarrow> game \<Rightarrow> (StepResult \<times> game) option" where
  "loop_move cfg s0 =
     (let s = s0\<lparr>directionRef := nextDirectionRef s0\<rparr>
      in case snakeRef s of
           [] \<Rightarrow> None
         | head # _ \<Rightarrow>
             let newHead0 = \<lparr>px = px head + px (directionRef s),
                             py = py head + py (directionRef s)\<rparr>
             in if activePowerUp s \<noteq> Some WRAP \<and> outOfBounds cfg newHead0
                then Some (Died, gameOver s)
                else
                  let newHead = (if activePowerUp s = Some WRAP
                                 then wrapEdges cfg newHead0 else newHead0)
                  in if activePowerUp s \<noteq> Some GHOST \<and> hitsSelf newHead (snakeRef s)
                     then Some (Died, gameOver s)
                     else
                       let newSnake = newHead # snakeRef s
                       in if px newHead = fx (foodRef s) \<and> py newHead = fy (foodRef s)
                          then
                            let s1 = s\<lparr>score := score s + FOOD_SCORE cfg\<rparr>;
                                s2 = (if ftype (foodRef s1) = F_GHOST
                                      then activatePowerUp (Some GHOST) s1 else s1);
                                s3 = (if ftype (foodRef s2) = F_WRAP
                                      then activatePowerUp (Some WRAP) s2 else s2);
                                s4 = spawnFood cfg s3
                            in Some (Moved True, s4\<lparr>snakeRef := newSnake\<rparr>)
                          else Some (Moved False, s\<lparr>snakeRef := butlast newSnake\<rparr>))"

text \<open>One animation frame: \<^verbatim>\<open>loop(time)\<close>. Drawing does not change the state.\<close>

definition loop :: "config \<Rightarrow> real \<Rightarrow> game \<Rightarrow> game option" where
  "loop cfg time s =
     (let timeSinceLastRender = time - lastRenderTimeRef s
      in if timeSinceLastRender > speedRef s
         then map_option snd (loop_move cfg (s\<lparr>lastRenderTimeRef := time\<rparr>))
         else Some s)"

section \<open>Events\<close>

text \<open>
  After a handler has run, React renders again. When \<^verbatim>\<open>gameState\<close> or \<^verbatim>\<open>activePowerUp\<close>
  differs from the previous render, the effect holding the game loop is run again, and the
  new \<^verbatim>\<open>loop\<close> sees the \<^verbatim>\<open>score\<close> of this render. Otherwise the old \<^verbatim>\<open>loop\<close> keeps
  running with the \<^verbatim>\<open>score\<close> it had.
\<close>

definition rerender :: "game \<Rightarrow> game \<Rightarrow> game" where
  "rerender before after =
     (if gameState after \<noteq> gameState before \<or> activePowerUp after \<noteq> activePowerUp before
      then after\<lparr>loopScore := score after\<rparr>
      else after)"

datatype Pad = PadUp | PadLeft | PadDown | PadRight

fun padDirection :: "Pad \<Rightarrow> Point" where
  "padDirection PadUp = \<lparr>px = 0, py = -1\<rparr>"
| "padDirection PadLeft = \<lparr>px = -1, py = 0\<rparr>"
| "padDirection PadDown = \<lparr>px = 0, py = 1\<rparr>"
| "padDirection PadRight = \<lparr>px = 1, py = 0\<rparr>"

text \<open>
  What can happen to the component: an animation frame (scheduled only while the state is
  PLAYING), a key press, the expiry of the power-up timeout, a click on the button of the
  overlay (shown in START and GAME\_OVER; in the second variant in START and PAUSED), and
  in the second variant a click on the action button of the side panel, on "Play Again"
  (shown in GAME\_OVER), a press of a pad button, and the start and end of a touch.
\<close>

datatype event =
    AnimationFrame real
  | KeyDown Key
  | PowerUpTimeout
  | ClickOverlay
  | ClickAction
  | ClickPlayAgain
  | PointerDown Pad
  | TouchStart real real
  | TouchEnd real real

definition handle :: "config \<Rightarrow> event \<Rightarrow> game \<Rightarrow> game option" where
  "handle cfg ev s =
     (case ev of
        AnimationFrame time \<Rightarrow> if gameState s = PLAYING then loop cfg time s else Some s
      | KeyDown key \<Rightarrow>
          Some (if variant cfg = Classic then handleKeyDown_classic key s
                else handleKeyDown_dashboard cfg key s)
      | PowerUpTimeout \<Rightarrow>
          Some (if powerUpTimeoutRef s
                then s\<lparr>activePowerUp := None, powerUpTimeoutRef := False\<rparr> else s)
      | ClickOverlay \<Rightarrow>
          Some (if variant cfg = Classic
                then (if gameState s = START \<or> gameState s = GAME_OVER
                      then resetGame cfg s else s)
                else (if gameState s = START then resetGame cfg s
                      else if gameState s = PAUSED then togglePause s else s))
      | ClickAction \<Rightarrow>
          Some (if variant cfg = Classic then s
                else if gameState s = PLAYING then togglePause s else resetGame cfg s)
      | ClickPlayAgain \<Rightarrow>
          Some (if variant cfg = Dashboard \<and> gameState s = GAME_OVER
                then resetGame cfg s else s)
      | PointerDown pad \<Rightarrow>
          Some (if variant cfg = Dashboard then handleDirectionChange (padDirection pad) s
                else s)
      | TouchStart clientX clientY \<Rightarrow>
          Some (if variant cfg = Dashboard then handleTouchStart clientX clientY s else s)
      | TouchEnd clientX clientY \<Rightarrow>
          Some (if variant cfg = Dashboard then handleTouchEnd clientX clientY s else s))"

definition dispatch :: "config \<Rightarrow> event \<Rightarrow> game \<Rightarrow> game option" where
  "dispatch cfg ev s = map_option (rerender s) (handle cfg ev s)"

text \<open>
  The state when the component is mounted; \<open>stored\<close> is the high score read from the
  store (0 when there is none).
\<close>

definition initial :: "int \<Rightarrow> (nat \<Rightarrow> real) \<Rightarrow> game" where
  "initial stored draws =
     \<lparr>gameState = START, score = 0, highScore = stored, activePowerUp = None,
      snakeRef = [\<lparr>px = 10, py = 10\<rparr>],
      directionRef = \<lparr>px = 1, py = 0\<rparr>,
      nextDirectionRef = \<lparr>px = 1, py = 0\<rparr>,
      foodRef = \<lparr>fx = 15, fy = 10, ftype = F_NORMAL\<rparr>,
      speedRef = INITIAL_SPEED, lastRenderTimeRef = 0,
      powerUpTimeoutRef = False, touchStartRef = None,
      loopScore = 0, localStorage = stored, confetti = 0, rng = draws\<rparr>"

inductive reachable :: "config \<Rightarrow> game \<Rightarrow> bool" for cfg :: config where
  reachable_initial: "reachable cfg (initial stored draws)"
| reachable_dispatch: "reachable cfg s \<Longrightarrow> dispatch cfg ev s = Some s' \<Longrightarrow> reachable cfg s'"

text \<open>Running a list of events; \<^term>\<open>None\<close> when a handler throws.\<close>

fun run :: "config \<Rightarrow> event list \<Rightarrow> game \<Rightarrow> game option" where
  "run cfg [] s = Some s"
| "run cfg (ev # evs) s =
     (case dispatch cfg ev s of None \<Rightarrow> None | Some s' \<Rightarrow> run cfg evs s')"

section \<open>Vocabulary of the properties\<close>

text \<open>
  A proposed direction is a same-axis reversal of the active one when it has a nonzero
  component on an axis on which the active direction is nonzero.
\<close>

definition sameAxisReversal :: "Point \<Rightarrow> Point \<Rightarrow> bool" where
  "sameAxisReversal active proposed \<longleftrightarrow>
     (px proposed \<noteq> 0 \<and> px active \<noteq> 0) \<or> (py proposed \<noteq> 0 \<and> py active \<noteq> 0)"

text \<open>
  The last legal command of a list of commands, or the pending direction when none is
  legal.
\<close>

definition lastLegal :: "Point \<Rightarrow> Point list \<Rightarrow> Point \<Rightarrow> Point" where
  "lastLegal active commands pending =
     (case filter (\<lambda>d. \<not> sameAxisReversal active d) commands of
        [] \<Rightarrow> pending
      | legal \<Rightarrow> last legal)"

text \<open>The direction an arrow key proposes.\<close>

fun arrowDirection :: "Key \<Rightarrow> Point option" where
  "arrowDirection ArrowUp = Some \<lparr>px = 0, py = -1\<rparr>"
| "arrowDirection ArrowDown = Some \<lparr>px = 0, py = 1\<rparr>"
| "arrowDirection ArrowLeft = Some \<lparr>px = -1, py = 0\<rparr>"
| "arrowDirection ArrowRight = Some \<lparr>px = 1, py = 0\<rparr>"
| "arrowDirection Space = None"
| "arrowDirection OtherKey = None"

text \<open>
  A state in the middle of a game, for the scenarios: the given body, the given direction
  (active and pending), the given power-up, the food of the first render at (15, 10).
\<close>

definition scenario :: "Point list \<Rightarrow> Point \<Rightarrow> PowerUpType option \<Rightarrow> game" where
  "scenario body dir pu =
     (initial 0 (\<lambda>n. 0))\<lparr>gameState := PLAYING, snakeRef := body, directionRef := dir,
                           nextDirectionRef := dir, activePowerUp := pu\<rparr>"

text \<open>The four directions of the controls.\<close>

definition unitDirection :: "Point \<Rightarrow> bool" where
  "unitDirection d \<longleftrightarrow>
     d = \<lparr>px = 1, py = 0\<rparr> \<or> d = \<lparr>px = -1, py = 0\<rparr> \<or> d = \<lparr>px = 0, py = 1\<rparr> \<or> d = \<lparr>px = 0, py = -1\<rparr>"

text \<open>
  What every state of a running component satisfies: the body is not empty, its cells are
  cells of the grid, and both directions are among the four.
\<close>

definition wellFormed :: "config \<Rightarrow> game \<Rightarrow> bool" where
  "wellFormed cfg s \<longleftrightarrow>
     snakeRef s \<noteq> [] \<and> (\<forall>p \<in> set (snakeRef s). \<not> outOfBounds cfg p)
     \<and> unitDirection (directionRef s) \<and> unitDirection (nextDirectionRef s)"

text \<open>
  What the invariant needs of the constants: the cell (10, 10) of the first render and the
  initial body of a game are inside the grid.
\<close>

definition gridOK :: "config \<Rightarrow> bool" where
  "gridOK cfg \<longleftrightarrow>
     11 \<le> GRID_WIDTH cfg \<and> 11 \<le> GRID_HEIGHT cfg \<and> INITIAL_SNAKE cfg \<noteq> []
     \<and> (\<forall>p \<in> set (INITIAL_SNAKE cfg). \<not> outOfBounds cfg p)"

text \<open>
  A session of \<^verbatim>\<open>GameCanvas.tsx\<close> with nothing in the store: the game is started, the first
  three draws (0, 11/32, 15/32; the products 10.3125 and 9.375 are exact) put a NORMAL food
  at (10, 9), ArrowUp is pressed, and eleven move updates follow. The first eats the food,
  the eleventh leaves the grid at y = -1.
\<close>

definition session_draws :: "nat \<Rightarrow> real" where
  "session_draws n = (if n = 1 then 11 / 32 else if n = 2 then 15 / 32 else 0)"

definition session_events :: "event list" where
  "session_events =
     [ClickOverlay, KeyDown ArrowUp,
      AnimationFrame 101, AnimationFrame 202, AnimationFrame 303, AnimationFrame 404,
      AnimationFrame 505, AnimationFrame 606, AnimationFrame 707, AnimationFrame 808,
      AnimationFrame 909, AnimationFrame 1010, AnimationFrame 1111]"

text \<open>Draws (0, 11/32, 33/64) that put the food of a new game at (10, 10).\<close>

definition reset_draws :: "nat \<Rightarrow> real" where
  "reset_draws n = (if n = 1 then 11 / 32 else if n = 2 then 33 / 64 else 0)"



section \<open>Basic facts\<close>

lemma Point_eq_iff: "(p::Point) = q \<longleftrightarrow> px p = px q \<and> py p = py q"
  by auto

lemma hitsSelf_iff: "hitsSelf newHead body \<longleftrightarrow> newHead \<in> set body"
  by (induction body) (auto simp: Point_eq_iff)

lemma rte_ge: "of_int N \<le> q \<Longrightarrow> N \<le> roundTiesToEven q"
proof -
  assume "of_int N \<le> q"
  then have "N \<le> \<lfloor>q\<rfloor>" by (simp add: le_floor_iff)
  then show ?thesis by (auto simp: roundTiesToEven_def Let_def)
qed

lemma rte_le: "q \<le> of_int M \<Longrightarrow> roundTiesToEven q \<le> M"
proof -
  assume a: "q \<le> of_int M"
  then have f: "\<lfloor>q\<rfloor> \<le> M" by linarith
  show ?thesis
  proof (cases "\<lfloor>q\<rfloor> = M")
    case True
    then have "q = of_int M" using a by linarith
    then show ?thesis by (simp add: roundTiesToEven_def)
  next
    case False
    with f have "\<lfloor>q\<rfloor> + 1 \<le> M" by simp
    then show ?thesis by (auto simp: roundTiesToEven_def Let_def)
  qed
qed

lemma rte_below_half: "q < of_int M - 1 / 2 \<Longrightarrow> roundTiesToEven q \<le> M - 1"
proof -
  assume a: "q < of_int M - 1 / 2"
  then have f: "\<lfloor>q\<rfloor> \<le> M - 1" by linarith
  show ?thesis
  proof (cases "\<lfloor>q\<rfloor> = M - 1")
    case True
    then have "q - of_int \<lfloor>q\<rfloor> < 1 / 2" using a by simp
    then show ?thesis using True by (simp add: roundTiesToEven_def Let_def)
  next
    case False
    with f have "\<lfloor>q\<rfloor> + 1 \<le> M - 1" by simp
    then show ?thesis by (auto simp: roundTiesToEven_def Let_def)
  qed
qed

lemma powi_neg:
  assumes "0 \<le> b"
  shows "(2::real) powi (- b) = 1 / 2 ^ nat b"
  using assms by (simp add: power_int_minus_divide power_int_def power_one_over)

lemma binade_bounds:
  assumes "0 < x"
  shows "2 powi binade x \<le> x \<and> x < 2 powi (binade x + 1)"
proof (cases "1 \<le> x")
  case True
  then have p: "0 < \<lfloor>x\<rfloor>" by linarith
  from bitlen_bounds[OF p] have b: "2 ^ nat (bitlen \<lfloor>x\<rfloor> - 1) \<le> \<lfloor>x\<rfloor>" "\<lfloor>x\<rfloor> < 2 ^ nat (bitlen \<lfloor>x\<rfloor>)"
    by simp_all
  have bl: "1 \<le> bitlen \<lfloor>x\<rfloor>" using p by (metis bitlen_eq_zero_iff bitlen_nonneg int_one_le_iff_zero_less le_less not_le)
  have lo: "2 powi (bitlen \<lfloor>x\<rfloor> - 1) \<le> x"
  proof -
    have "(2::real) powi (bitlen \<lfloor>x\<rfloor> - 1) = of_int (2 ^ nat (bitlen \<lfloor>x\<rfloor> - 1))"
      using bl by (simp add: power_int_def)
    also have "\<dots> \<le> of_int \<lfloor>x\<rfloor>" using b(1) by (simp only: of_int_le_iff)
    also have "\<dots> \<le> x" by simp
    finally show ?thesis .
  qed
  have hi: "x < 2 powi (bitlen \<lfloor>x\<rfloor> - 1 + 1)"
  proof -
    have "\<lfloor>x\<rfloor> + 1 \<le> 2 ^ nat (bitlen \<lfloor>x\<rfloor>)" using b(2) by simp
    then have "of_int (\<lfloor>x\<rfloor> + 1) \<le> (of_int (2 ^ nat (bitlen \<lfloor>x\<rfloor>)) :: real)" by (simp only: of_int_le_iff)
    then have "of_int \<lfloor>x\<rfloor> + 1 \<le> (2::real) ^ nat (bitlen \<lfloor>x\<rfloor>)" by simp
    moreover have "x < of_int \<lfloor>x\<rfloor> + 1" by linarith
    ultimately have "x < (2::real) ^ nat (bitlen \<lfloor>x\<rfloor>)" by linarith
    then show ?thesis using bl by (simp add: power_int_def)
  qed
  from lo hi True show ?thesis by (simp add: binade_def)
next
  case False
  with assms have x1: "x < 1" "0 < x" by simp_all
  let ?N = "\<lceil>1 / x\<rceil> - 1"
  have "1 < 1 / x" using x1 by simp
  then have N: "0 < ?N" by linarith
  from bitlen_bounds[OF N] have b: "2 ^ nat (bitlen ?N - 1) \<le> ?N" "?N < 2 ^ nat (bitlen ?N)"
    by simp_all
  have bl: "1 \<le> bitlen ?N" using N by (metis bitlen_eq_zero_iff bitlen_nonneg int_one_le_iff_zero_less le_less not_le)
  have lo: "2 powi (- bitlen ?N) \<le> x"
  proof -
    have "\<lceil>1 / x\<rceil> \<le> 2 ^ nat (bitlen ?N)" using b(2) by simp
    then have "of_int \<lceil>1 / x\<rceil> \<le> (of_int (2 ^ nat (bitlen ?N)) :: real)" by (simp only: of_int_le_iff)
    then have "of_int \<lceil>1 / x\<rceil> \<le> (2::real) ^ nat (bitlen ?N)" by simp
    moreover have "1 / x \<le> of_int \<lceil>1 / x\<rceil>" by linarith
    ultimately have "1 / x \<le> (2::real) ^ nat (bitlen ?N)" by linarith
    then have "1 / (2::real) ^ nat (bitlen ?N) \<le> x"
      using x1 by (simp add: field_simps)
    then show ?thesis using powi_neg[of "bitlen ?N"] bl by simp
  qed
  have hi: "x < 2 powi (- bitlen ?N + 1)"
  proof -
    have "(of_int (2 ^ nat (bitlen ?N - 1)) :: real) \<le> of_int ?N" using b(1) by (simp only: of_int_le_iff)
    then have "(2::real) ^ nat (bitlen ?N - 1) \<le> of_int \<lceil>1 / x\<rceil> - 1" by simp
    moreover have "of_int \<lceil>1 / x\<rceil> - 1 < 1 / x" by linarith
    ultimately have "(2::real) ^ nat (bitlen ?N - 1) < 1 / x" by linarith
    then have "x < 1 / (2::real) ^ nat (bitlen ?N - 1)"
      using x1 by (simp add: field_simps)
    moreover have "(2::real) powi (- bitlen ?N + 1) = 1 / 2 ^ nat (bitlen ?N - 1)"
      using powi_neg[of "bitlen ?N - 1"] bl by simp
    ultimately show ?thesis by simp
  qed
  from lo hi False show ?thesis by (simp add: binade_def)
qed


lemma ulp_exponent_le0:
  assumes "0 < x" "x < 2 ^ 53"
  shows "max (binade x - 52) (- 1074) \<le> 0"
proof -
  from binade_bounds[OF assms(1)] assms(2) have "(2::real) powi binade x < 2 powi 53" by simp
  then have "binade x < 53" by (rule power_int_le_imp_less_exp[rotated]) simp_all
  then show ?thesis by simp
qed

lemma ulp_half_range:
  assumes "0 < x" "x < B" "1 \<le> B"
  shows "2 powi (max (binade x - 52) (- 1074) + 52) < B"
proof (cases "binade x - 52 \<ge> - 1074")
  case True
  then have "max (binade x - 52) (- 1074) + 52 = binade x" by simp
  with binade_bounds[OF assms(1)] assms(2) show ?thesis by simp
next
  case False
  then have "max (binade x - 52) (- 1074) + 52 < 0" by simp
  then have "(2::real) powi (max (binade x - 52) (- 1074) + 52) < 2 powi 0"
    by (intro power_int_strict_increasing) simp_all
  with assms(3) show ?thesis by simp
qed

lemma int_over_ulp:
  assumes "e \<le> 0"
  shows "of_int N / (2::real) powi e = of_int (N * 2 ^ nat (- e))"
  using powi_neg[of "- e"] assms by simp

lemma int_times_ulp:
  assumes "e \<le> 0"
  shows "of_int (N * 2 ^ nat (- e)) * (2::real) powi e = of_int N"
proof -
  have "(2::real) powi e = 1 / 2 ^ nat (- e)" using powi_neg[of "- e"] assms by simp
  then show ?thesis by simp
qed

lemma round64_pos:
  assumes "0 < x"
  shows "round64 x =
     of_int (roundTiesToEven (x / 2 powi max (binade x - 52) (- 1074)))
       * 2 powi max (binade x - 52) (- 1074)"
  using assms by (simp add: round64_def Let_def)

lemma round64_bracket:
  assumes "0 \<le> x" "x < 2 ^ 53"
  shows "of_int \<lfloor>x\<rfloor> \<le> round64 x \<and> round64 x \<le> of_int \<lfloor>x\<rfloor> + 1"
proof (cases "x = 0")
  case True
  then show ?thesis by (simp add: round64_def)
next
  case False
  with assms have pos: "0 < x" by simp
  define e where "e = max (binade x - 52) (- 1074)"
  define U where "U = (2::real) powi e"
  have e0: "e \<le> 0" unfolding e_def by (rule ulp_exponent_le0[OF pos assms(2)])
  have Upos: "0 < U" unfolding U_def by simp
  have r: "round64 x = of_int (roundTiesToEven (x / U)) * U"
    unfolding U_def e_def by (rule round64_pos[OF pos])
  have lo: "of_int \<lfloor>x\<rfloor> \<le> round64 x"
  proof -
    have "of_int (\<lfloor>x\<rfloor> * 2 ^ nat (- e)) = of_int \<lfloor>x\<rfloor> / U"
      unfolding U_def by (rule int_over_ulp[OF e0, symmetric])
    also have "\<dots> \<le> x / U" using Upos by (simp add: divide_right_mono)
    finally have "\<lfloor>x\<rfloor> * 2 ^ nat (- e) \<le> roundTiesToEven (x / U)" by (rule rte_ge)
    then have "of_int (\<lfloor>x\<rfloor> * 2 ^ nat (- e)) \<le> (of_int (roundTiesToEven (x / U)) :: real)"
      by (simp only: of_int_le_iff)
    then have "of_int (\<lfloor>x\<rfloor> * 2 ^ nat (- e)) * U \<le> of_int (roundTiesToEven (x / U)) * U"
      using Upos by (simp only: mult_le_cancel_right) simp
    moreover have "of_int (\<lfloor>x\<rfloor> * 2 ^ nat (- e)) * U = of_int \<lfloor>x\<rfloor>"
      unfolding U_def by (rule int_times_ulp[OF e0])
    ultimately show ?thesis using r by (simp only:)
  qed
  have hi: "round64 x \<le> of_int \<lfloor>x\<rfloor> + 1"
  proof -
    have "x / U \<le> of_int (\<lfloor>x\<rfloor> + 1) / U" using Upos by (intro divide_right_mono) linarith+
    also have "\<dots> = of_int ((\<lfloor>x\<rfloor> + 1) * 2 ^ nat (- e))"
      unfolding U_def by (rule int_over_ulp[OF e0])
    finally have "roundTiesToEven (x / U) \<le> (\<lfloor>x\<rfloor> + 1) * 2 ^ nat (- e)" by (rule rte_le)
    then have "(of_int (roundTiesToEven (x / U)) :: real) \<le> of_int ((\<lfloor>x\<rfloor> + 1) * 2 ^ nat (- e))"
      by (simp only: of_int_le_iff)
    then have "of_int (roundTiesToEven (x / U)) * U \<le> of_int ((\<lfloor>x\<rfloor> + 1) * 2 ^ nat (- e)) * U"
      using Upos by (simp only: mult_le_cancel_right) simp
    moreover have "of_int ((\<lfloor>x\<rfloor> + 1) * 2 ^ nat (- e)) * U = of_int (\<lfloor>x\<rfloor> + 1)"
      unfolding U_def by (rule int_times_ulp[OF e0])
    ultimately have "round64 x \<le> of_int (\<lfloor>x\<rfloor> + 1)" using r by (simp only:)
    then show ?thesis by simp
  qed
  from lo hi show ?thesis ..
qed


lemma round64_below:
  fixes W :: int
  assumes "0 \<le> x" "x \<le> of_int W * (1 - 1 / 2 ^ 53)" "1 \<le> W" "W \<le> 2 ^ 53"
  shows "round64 x < of_int W"
proof (cases "x = 0")
  case True
  with assms(3) show ?thesis by (simp add: round64_def)
next
  case False
  with assms have pos: "0 < x" by simp
  have Wr1: "1 \<le> (of_int W :: real)" using assms(3) by simp
  have "(of_int W :: real) \<le> of_int (2 ^ 53)" using assms(4) by (simp only: of_int_le_iff)
  then have Wr2: "(of_int W :: real) \<le> 2 ^ 53" by simp
  note Wr = Wr1 Wr2
  have xW: "x < of_int W"
  proof -
    have "of_int W * (1 - 1 / 2 ^ 53) < (of_int W :: real)" using Wr by (simp add: algebra_simps)
    with assms(2) show ?thesis by linarith
  qed
  then have x53: "x < 2 ^ 53" using Wr by linarith
  define e where "e = max (binade x - 52) (- 1074)"
  define U where "U = (2::real) powi e"
  have e0: "e \<le> 0" unfolding e_def by (rule ulp_exponent_le0[OF pos x53])
  have Upos: "0 < U" unfolding U_def by simp
  have r: "round64 x = of_int (roundTiesToEven (x / U)) * U"
    unfolding U_def e_def by (rule round64_pos[OF pos])
  have half: "U * 2 ^ 52 < of_int W"
  proof -
    have "(2::real) powi (e + 52) = U * 2 ^ 52"
      unfolding U_def by (simp add: power_int_add)
    moreover have "(2::real) powi (e + 52) < of_int W"
      unfolding e_def by (rule ulp_half_range[OF pos xW Wr(1)])
    ultimately show ?thesis by simp
  qed
  define M where "M = W * 2 ^ nat (- e)"
  have M: "of_int W / U = of_int M" unfolding U_def M_def by (rule int_over_ulp[OF e0])
  define c where "c = (1::real) / 2 ^ 53"
  have c: "c * 2 ^ 53 = 1" unfolding c_def by simp
  have xc: "x \<le> of_int W * (1 - c)" using assms(2) unfolding c_def .
  have big: "1 / 2 < of_int W * c / U"
  proof -
    have "U * 2 ^ 52 * (2 * c) < of_int W * (2 * c)"
      using half c_def by (intro mult_strict_right_mono) simp_all
    moreover have "U * 2 ^ 52 * (2 * c) = U * (c * 2 ^ 53)" by simp
    ultimately have "U < of_int W * (2 * c)" using c by (simp only: mult_1_right)
    then have "U / 2 < of_int W * c" by simp
    then show ?thesis using Upos by (simp add: field_simps)
  qed
  have "x / U \<le> of_int W * (1 - c) / U"
    by (rule divide_right_mono[OF xc less_imp_le[OF Upos]])
  also have "\<dots> = of_int W / U - of_int W * c / U" by (simp add: algebra_simps diff_divide_distrib)
  also have "\<dots> = of_int M - of_int W * c / U" by (simp only: M)
  also have "\<dots> < of_int M - 1 / 2" using big by linarith
  finally have "roundTiesToEven (x / U) \<le> M - 1" by (rule rte_below_half)
  then have "(of_int (roundTiesToEven (x / U)) :: real) \<le> of_int (M - 1)" by (simp only: of_int_le_iff)
  then have "of_int (roundTiesToEven (x / U)) * U \<le> of_int (M - 1) * U"
    using Upos by (simp only: mult_le_cancel_right) simp
  also have "\<dots> = of_int W - U" using M Upos by (simp add: field_simps)
  also have "\<dots> < of_int W" using Upos by simp
  finally show ?thesis using r by simp
qed

lemma binade_upper_half:
  assumes "1 / 2 \<le> r" "r < 1"
  shows "binade r = - 1"
proof -
  have "1 < 1 / r" "1 / r \<le> 2" using assms by (simp_all add: field_simps)
  then have "\<lceil>1 / r\<rceil> = 2" by linarith
  moreover have "bitlen 1 = 1" by (simp add: bitlen_alt_def)
  ultimately show ?thesis using assms by (simp add: binade_def)
qed

lemma upper_half_draw:
  assumes "binary64 r" "1 / 2 \<le> r" "r < 1"
  shows "r * 2 ^ 53 = of_int (roundTiesToEven (r * 2 ^ 53))"
proof -
  have pos: "0 < r" using assms(2) by simp
  have "round64 r = of_int (roundTiesToEven (r / 2 powi (- 53))) * 2 powi (- 53)"
    using round64_pos[OF pos] binade_upper_half[OF assms(2,3)] by simp
  with assms(1) have "r = of_int (roundTiesToEven (r * 2 ^ 53)) / 2 ^ 53"
    by (simp add: binary64_def power_int_minus_divide)
  then show ?thesis by (simp add: field_simps)
qed

lemma unitDraw_le:
  assumes "unitDraw r"
  shows "0 \<le> r \<and> r \<le> 1 - 1 / 2 ^ 53"
proof (cases "1 / 2 \<le> r")
  case True
  from assms have b: "binary64 r" and r1: "r < 1" by (simp_all add: unitDraw_def)
  define n where "n = roundTiesToEven (r * 2 ^ 53)"
  have n: "r * 2 ^ 53 = of_int n" unfolding n_def by (rule upper_half_draw[OF b True r1])
  have "of_int n < (2::real) ^ 53" using r1 n[symmetric] by simp
  then have "of_int n < (of_int (2 ^ 53) :: real)" by simp
  then have "n < 2 ^ 53" by (simp only: of_int_less_iff)
  then have "n \<le> 2 ^ 53 - 1" by simp
  then have "(of_int n :: real) \<le> of_int (2 ^ 53 - 1)" by (simp only: of_int_le_iff)
  then have "r * 2 ^ 53 \<le> 2 ^ 53 - 1" using n by simp
  then have "r \<le> 1 - 1 / 2 ^ 53" by (simp add: field_simps)
  with True show ?thesis by simp
next
  case False
  with assms show ?thesis by (simp add: unitDraw_def)
qed

lemma bitlen_1: "bitlen 1 = 1"
  by (simp add: bitlen_alt_def)

lemma times64_0: "times64 0 b = 0"
  by (simp add: times64_def round64_def)

lemma round64_085:
  "round64 0.85 = 7656119366529843 / 9007199254740992"
  "round64 (17 / 20) = 7656119366529843 / 9007199254740992"
  using round64_pos[of "0.85"] by (simp_all add: binade_def bitlen_1 roundTiesToEven_def)

lemma round64_070:
  "round64 0.70 = 6305039478318694 / 9007199254740992"
  "round64 (7 / 10) = 6305039478318694 / 9007199254740992"
  using round64_pos[of "0.70"] by (simp_all add: binade_def bitlen_1 roundTiesToEven_def)



text \<open>The cell of a draw: inside the grid, and the exact floor or the next integer.\<close>

lemma cell_in_grid:
  fixes n :: int
  assumes "unitDraw r" "1 \<le> n" "n \<le> 2 ^ 53"
  shows "0 \<le> \<lfloor>times64 r (of_int n)\<rfloor> \<and> \<lfloor>times64 r (of_int n)\<rfloor> < n"
proof -
  from unitDraw_le[OF assms(1)] have r: "0 \<le> r" "r \<le> 1 - 1 / 2 ^ 53" by simp_all
  from assms(1) have r1: "r < 1" by (simp add: unitDraw_def)
  have n0: "0 < (of_int n :: real)" using assms(2) by simp
  have x0: "0 \<le> r * of_int n" using r(1) n0 by simp
  have "r * of_int n \<le> (1 - 1 / 2 ^ 53) * of_int n"
    by (rule mult_right_mono[OF r(2) less_imp_le[OF n0]])
  then have xb: "r * of_int n \<le> of_int n * (1 - 1 / 2 ^ 53)" by (simp only: mult.commute)
  from round64_below[OF x0 xb assms(2,3)] have up: "round64 (r * of_int n) < of_int n" .
  have "r * of_int n < 1 * of_int n" using r1 n0 by (intro mult_strict_right_mono)
  moreover have "(of_int n :: real) \<le> of_int (2 ^ 53)" using assms(3) by (simp only: of_int_le_iff)
  ultimately have x53: "r * of_int n < 2 ^ 53" by simp
  from round64_bracket[OF x0 x53] have "of_int \<lfloor>r * of_int n\<rfloor> \<le> round64 (r * of_int n)" by simp
  moreover have "(0::real) \<le> of_int \<lfloor>r * of_int n\<rfloor>" using x0 by simp
  ultimately have "0 \<le> round64 (r * of_int n)" by (rule order_trans[rotated])
  then have "0 \<le> \<lfloor>round64 (r * of_int n)\<rfloor>" by simp
  moreover from up have "\<lfloor>round64 (r * of_int n)\<rfloor> < n" by (simp only: floor_less_iff)
  ultimately show ?thesis by (simp add: times64_def)
qed


text \<open>The cells of the draws used in the scenarios.\<close>

lemma round64_values:
  "round64 (165 / 16) = 165 / 16"
  "round64 (75 / 8) = 75 / 8"
  "round64 15 = 15"
  "round64 10 = 10"
  "round64 (47287796087390205 / 2251799813685248) = 21"
proof -
  show "round64 (165 / 16) = 165 / 16"
    using round64_pos[of "165 / 16"] by (simp add: binade_def compute_bitlen roundTiesToEven_def)
  show "round64 (75 / 8) = 75 / 8"
    using round64_pos[of "75 / 8"] by (simp add: binade_def compute_bitlen roundTiesToEven_def)
  show "round64 15 = 15"
    using round64_pos[of 15] by (simp add: binade_def compute_bitlen roundTiesToEven_def)
  show "round64 10 = 10"
    using round64_pos[of 10] by (simp add: binade_def compute_bitlen roundTiesToEven_def)
  show "round64 (47287796087390205 / 2251799813685248) = 21"
    using round64_pos[of "47287796087390205 / 2251799813685248"]
    by (simp add: binade_def compute_bitlen roundTiesToEven_def)
qed

lemma cells_of_draws:
  "\<lfloor>times64 (11 / 32) 30\<rfloor> = 10"
  "\<lfloor>times64 (15 / 32) 20\<rfloor> = 9"
  "\<lfloor>times64 (33 / 64) 20\<rfloor> = 10"
  "\<lfloor>times64 (1 / 2) 30\<rfloor> = 15"
  "\<lfloor>times64 (1 / 2) 20\<rfloor> = 10"
  "\<lfloor>times64 (3152519739159347 / 4503599627370496) 30\<rfloor> = 21"
  by (simp_all add: times64_def round64_values)

lemma unitDraws:
  "unitDraw (11 / 32)" "unitDraw (33 / 64)" "unitDraw (1 / 2)" "unitDraw (7 / 8)"
  "unitDraw (3152519739159347 / 4503599627370496)"
proof -
  show "unitDraw (11 / 32)"
    using round64_pos[of "11 / 32"]
    by (simp add: unitDraw_def binary64_def binade_def compute_bitlen roundTiesToEven_def)
  show "unitDraw (33 / 64)"
    using round64_pos[of "33 / 64"]
    by (simp add: unitDraw_def binary64_def binade_def compute_bitlen roundTiesToEven_def)
  show "unitDraw (1 / 2)"
    using round64_pos[of "1 / 2"]
    by (simp add: unitDraw_def binary64_def binade_def compute_bitlen roundTiesToEven_def)
  show "unitDraw (7 / 8)"
    using round64_pos[of "7 / 8"]
    by (simp add: unitDraw_def binary64_def binade_def compute_bitlen roundTiesToEven_def)
  show "unitDraw (3152519739159347 / 4503599627370496)"
    using round64_pos[of "3152519739159347 / 4503599627370496"]
    by (simp add: unitDraw_def binary64_def binade_def compute_bitlen roundTiesToEven_def)
qed

lemma spawnFood_fields:
  "foodRef (spawnFood cfg s) =
     \<lparr>fx = \<lfloor>times64 (rng s 1) (of_int (GRID_WIDTH cfg))\<rfloor>,
      fy = \<lfloor>times64 (rng s 2) (of_int (GRID_HEIGHT cfg))\<rfloor>,
      ftype = (if rng s 0 > round64 0.85 then F_GHOST
               else if rng s 0 > round64 0.70 then F_WRAP else F_NORMAL)\<rparr>"
  "snakeRef (spawnFood cfg s) = snakeRef s"
  "gameState (spawnFood cfg s) = gameState s"
  "score (spawnFood cfg s) = score s"
  "highScore (spawnFood cfg s) = highScore s"
  "activePowerUp (spawnFood cfg s) = activePowerUp s"
  "directionRef (spawnFood cfg s) = directionRef s"
  "nextDirectionRef (spawnFood cfg s) = nextDirectionRef s"
  "loopScore (spawnFood cfg s) = loopScore s"
  "localStorage (spawnFood cfg s) = localStorage s"
  "confetti (spawnFood cfg s) = confetti s"
  by (simp_all add: spawnFood_def Math_random_def numeral_2_eq_2)

lemma gameOver_fields:
  "snakeRef (gameOver s) = snakeRef s"
  "foodRef (gameOver s) = foodRef s"
  "gameState (gameOver s) = GAME_OVER"
  "directionRef (gameOver s) = directionRef s"
  "nextDirectionRef (gameOver s) = nextDirectionRef s"
  by (simp_all add: gameOver_def Let_def)

lemma activatePowerUp_fields:
  "snakeRef (activatePowerUp ty s) = snakeRef s"
  "foodRef (activatePowerUp ty s) = foodRef s"
  "directionRef (activatePowerUp ty s) = directionRef s"
  "nextDirectionRef (activatePowerUp ty s) = nextDirectionRef s"
  "rng (activatePowerUp ty s) = rng s"
  by (simp_all add: activatePowerUp_def split: option.splits)

lemma loop_move_wall:
  assumes "candidateHead cfg s = Some nh" "activePowerUp s \<noteq> Some WRAP" "outOfBounds cfg nh"
  shows "loop_move cfg s = Some (Died, gameOver (s\<lparr>directionRef := nextDirectionRef s\<rparr>))"
  using assms by (auto simp: candidateHead_def loop_move_def Let_def split: list.splits)

lemma loop_move_self:
  assumes "candidateHead cfg s = Some nh" "activePowerUp s \<noteq> Some GHOST" "nh \<in> set (snakeRef s)"
  shows "loop_move cfg s = Some (Died, gameOver (s\<lparr>directionRef := nextDirectionRef s\<rparr>))"
  using assms by (auto simp: candidateHead_def loop_move_def Let_def hitsSelf_iff split: list.splits)

lemma loop_move_eat:
  assumes "candidateHead cfg s = Some nh"
    and "activePowerUp s = Some WRAP \<or> \<not> outOfBounds cfg nh"
    and "activePowerUp s = Some GHOST \<or> nh \<notin> set (snakeRef s)"
    and "px nh = fx (foodRef s) \<and> py nh = fy (foodRef s)"
  shows "\<exists>s'. loop_move cfg s = Some (Moved True, s') \<and> snakeRef s' = nh # snakeRef s
            \<and> directionRef s' = nextDirectionRef s
            \<and> nextDirectionRef s' = nextDirectionRef s"
  using assms
  by (auto simp: candidateHead_def loop_move_def Let_def hitsSelf_iff spawnFood_fields
      activatePowerUp_fields split: list.splits)

lemma loop_move_plain:
  assumes "candidateHead cfg s = Some nh"
    and "activePowerUp s = Some WRAP \<or> \<not> outOfBounds cfg nh"
    and "activePowerUp s = Some GHOST \<or> nh \<notin> set (snakeRef s)"
    and "\<not> (px nh = fx (foodRef s) \<and> py nh = fy (foodRef s))"
  shows "loop_move cfg s =
           Some (Moved False, s\<lparr>directionRef := nextDirectionRef s,
                                snakeRef := butlast (nh # snakeRef s)\<rparr>)"
  using assms
  by (auto simp: candidateHead_def loop_move_def Let_def hitsSelf_iff split: list.splits)

lemma candidateHead_Some: "snakeRef s \<noteq> [] \<Longrightarrow> \<exists>nh. candidateHead cfg s = Some nh"
  by (cases "snakeRef s") (simp_all add: candidateHead_def Let_def)

lemma candidateHead_None: "candidateHead cfg s = None \<longleftrightarrow> snakeRef s = []"
  by (cases "snakeRef s") (simp_all add: candidateHead_def Let_def)

lemma loop_move_None: "loop_move cfg s = None \<longleftrightarrow> snakeRef s = []"
  by (cases "snakeRef s") (simp_all add: loop_move_def Let_def)

lemma wrapEdges_fields:
  assumes "0 < GRID_WIDTH cfg" "0 < GRID_HEIGHT cfg"
  shows "px (wrapEdges cfg p) =
           (if px p < 0 then GRID_WIDTH cfg - 1 else if px p \<ge> GRID_WIDTH cfg then 0 else px p)"
    and "py (wrapEdges cfg p) =
           (if py p < 0 then GRID_HEIGHT cfg - 1 else if py p \<ge> GRID_HEIGHT cfg then 0 else py p)"
  using assms by (simp_all add: wrapEdges_def Let_def)

lemma wrapEdges_inside:
  assumes "0 < GRID_WIDTH cfg" "0 < GRID_HEIGHT cfg"
  shows "\<not> outOfBounds cfg (wrapEdges cfg p)"
  using assms by (simp add: outOfBounds_def wrapEdges_fields)

lemma loop_move_Moved:
  assumes "candidateHead cfg s = Some nh"
    and "activePowerUp s = Some WRAP \<or> \<not> outOfBounds cfg nh"
    and "activePowerUp s = Some GHOST \<or> nh \<notin> set (snakeRef s)"
  shows "\<exists>g s'. loop_move cfg s = Some (Moved g, s') \<and> hd (snakeRef s') = nh"
proof (cases "px nh = fx (foodRef s) \<and> py nh = fy (foodRef s)")
  case True
  from loop_move_eat[OF assms True] show ?thesis by auto
next
  case False
  from assms(1) have "snakeRef s \<noteq> []" using candidateHead_None[of cfg s] by auto
  with loop_move_plain[OF assms False] show ?thesis by auto
qed

lemma loop_move_Died_only:
  assumes "candidateHead cfg s = Some nh" "loop_move cfg s = Some (Died, s')"
  shows "(activePowerUp s \<noteq> Some WRAP \<and> outOfBounds cfg nh)
       \<or> (activePowerUp s \<noteq> Some GHOST \<and> nh \<in> set (snakeRef s))"
proof (rule ccontr)
  assume "\<not> ?thesis"
  then have "activePowerUp s = Some WRAP \<or> \<not> outOfBounds cfg nh"
    and "activePowerUp s = Some GHOST \<or> nh \<notin> set (snakeRef s)" by auto
  from loop_move_Moved[OF assms(1) this] assms(2) show False by auto
qed

lemma handleDirectionChange_eq:
  "handleDirectionChange d s =
     (if sameAxisReversal (directionRef s) d then s else s\<lparr>nextDirectionRef := d\<rparr>)"
  by (simp add: handleDirectionChange_def sameAxisReversal_def Let_def)

lemma handleDirectionChange_keeps:
  "directionRef (handleDirectionChange d s) = directionRef s"
  "gameState (handleDirectionChange d s) = gameState s"
  "snakeRef (handleDirectionChange d s) = snakeRef s"
  by (simp_all add: handleDirectionChange_eq)

lemma fold_hdc_keeps:
  "directionRef (fold handleDirectionChange ds s) = directionRef s"
  "gameState (fold handleDirectionChange ds s) = gameState s"
  by (induction ds arbitrary: s) (simp_all add: handleDirectionChange_keeps)

lemma fold_hdc_pending:
  "nextDirectionRef (fold handleDirectionChange ds s) =
     lastLegal (directionRef s) ds (nextDirectionRef s)"
proof (induction ds arbitrary: s)
  case Nil
  show ?case by (simp add: lastLegal_def)
next
  case (Cons d ds)
  show ?case
  proof (cases "sameAxisReversal (directionRef s) d")
    case True
    then have "handleDirectionChange d s = s" by (simp add: handleDirectionChange_eq)
    with Cons[of s] True show ?thesis by (simp add: lastLegal_def)
  next
    case False
    then have h: "handleDirectionChange d s = s\<lparr>nextDirectionRef := d\<rparr>"
      by (simp add: handleDirectionChange_eq)
    from Cons[of "s\<lparr>nextDirectionRef := d\<rparr>"] h False show ?thesis
      by (simp add: lastLegal_def split: list.splits)
  qed
qed

lemma classic_key:
  assumes "gameState s = PLAYING"
  shows "handleKeyDown_classic k s =
     (case arrowDirection k of None \<Rightarrow> s | Some d \<Rightarrow> handleDirectionChange d s)"
  using assms
  by (cases k) (auto simp: handleKeyDown_classic_def handleDirectionChange_def Let_def)

lemma dashboard_key:
  assumes "gameState s = PLAYING" "k \<noteq> Space"
  shows "handleKeyDown_dashboard cfg k s =
     (case arrowDirection k of None \<Rightarrow> s | Some d \<Rightarrow> handleDirectionChange d s)"
  using assms
  by (cases k) (auto simp: handleKeyDown_dashboard_def Let_def)

lemma loop_move_commits:
  assumes "loop_move cfg s = Some (r, s')"
  shows "directionRef s' = nextDirectionRef s"
proof -
  from assms have "snakeRef s \<noteq> []" using loop_move_None[of cfg s] by auto
  then obtain nh where nh: "candidateHead cfg s = Some nh" using candidateHead_Some by blast
  show ?thesis
  proof (cases r)
    case Died
    with assms loop_move_Died_only[OF nh] have
      "loop_move cfg s = Some (Died, gameOver (s\<lparr>directionRef := nextDirectionRef s\<rparr>))"
      using loop_move_wall[OF nh] loop_move_self[OF nh] by blast
    with assms have "s' = gameOver (s\<lparr>directionRef := nextDirectionRef s\<rparr>)" by simp
    then show ?thesis by (simp add: gameOver_fields)
  next
    case (Moved g)
    have a: "activePowerUp s = Some WRAP \<or> \<not> outOfBounds cfg nh"
      using loop_move_wall[OF nh] assms Moved by auto
    have b: "activePowerUp s = Some GHOST \<or> nh \<notin> set (snakeRef s)"
      using loop_move_self[OF nh] assms Moved by auto
    show ?thesis
    proof (cases "px nh = fx (foodRef s) \<and> py nh = fy (foodRef s)")
      case True
      from loop_move_eat[OF nh a b True] assms show ?thesis by auto
    next
      case False
      from loop_move_plain[OF nh a b False] assms show ?thesis by auto
    qed
  qed
qed


lemma scenario_fields:
  "snakeRef (scenario body dir pu) = body"
  "nextDirectionRef (scenario body dir pu) = dir"
  "directionRef (scenario body dir pu) = dir"
  "activePowerUp (scenario body dir pu) = pu"
  "foodRef (scenario body dir pu) = \<lparr>fx = 15, fy = 10, ftype = F_NORMAL\<rparr>"
  by (simp_all add: scenario_def initial_def)

lemma scenario_commit:
  "(scenario body dir pu)\<lparr>directionRef := nextDirectionRef (scenario body dir pu)\<rparr> =
     scenario body dir pu"
  "(scenario body dir pu)\<lparr>directionRef := dir\<rparr> = scenario body dir pu"
  by (simp_all add: scenario_def initial_def)

section \<open>The food spawner\<close>




section \<open>The move update\<close>

text \<open>
  Claim C1. When the candidate head is inside the grid (or WRAP is active, so that it was
  wrapped) and is not a cell of the body, the move update returns Moved, with grew true
  exactly when the candidate head is the food's cell before the update, and the body is
  one cell longer when it grew and as long as before otherwise.
\<close>

theorem moved_length:
  assumes "candidateHead cfg s = Some nh"
    and "activePowerUp s = Some WRAP \<or> \<not> outOfBounds cfg nh"
    and "nh \<notin> set (snakeRef s)"
  shows "\<exists>s'. loop_move cfg s = Some (Moved (px nh = fx (foodRef s) \<and> py nh = fy (foodRef s)), s')
            \<and> length (snakeRef s') =
                length (snakeRef s) + (if px nh = fx (foodRef s) \<and> py nh = fy (foodRef s) then 1 else 0)
            \<and> hd (snakeRef s') = nh"
proof (cases "px nh = fx (foodRef s) \<and> py nh = fy (foodRef s)")
  case True
  from loop_move_eat[OF assms(1,2) _ True] assms(3) True show ?thesis by auto
next
  case False
  from assms(1) have "snakeRef s \<noteq> []" using candidateHead_None[of cfg s] by auto
  with loop_move_plain[OF assms(1,2) _ False] assms(3) False show ?thesis by auto
qed

theorem moved_length_witness:
  "\<exists>s'. loop_move classic
          ((scenario [\<lparr>px = 10, py = 10\<rparr>] \<lparr>px = 1, py = 0\<rparr> None)
             \<lparr>foodRef := \<lparr>fx = 11, fy = 10, ftype = F_NORMAL\<rparr>\<rparr>) = Some (Moved True, s')
        \<and> length (snakeRef s') = 2 \<and> hd (snakeRef s') = \<lparr>px = 11, py = 10\<rparr>"
  using moved_length[of classic
      "(scenario [\<lparr>px = 10, py = 10\<rparr>] \<lparr>px = 1, py = 0\<rparr> None)
         \<lparr>foodRef := \<lparr>fx = 11, fy = 10, ftype = F_NORMAL\<rparr>\<rparr>" "\<lparr>px = 11, py = 10\<rparr>"]
  by (simp add: candidateHead_def scenario_fields outOfBounds_def classic_def numeral_2_eq_2)

text \<open>
  Claim C2. When the move update returns Died, the body and the food are what they were
  before it; and it returns Died only for a candidate head outside the grid without WRAP
  or on a cell of the body without GHOST.
\<close>

theorem died_unchanged:
  assumes "loop_move cfg s = Some (Died, s')"
  shows "snakeRef s' = snakeRef s \<and> foodRef s' = foodRef s \<and> gameState s' = GAME_OVER
       \<and> (\<exists>nh. candidateHead cfg s = Some nh
             \<and> ((activePowerUp s \<noteq> Some WRAP \<and> outOfBounds cfg nh)
                \<or> (activePowerUp s \<noteq> Some GHOST \<and> nh \<in> set (snakeRef s))))"
proof -
  from assms have ne: "snakeRef s \<noteq> []" using loop_move_None[of cfg s] by auto
  then obtain nh where nh: "candidateHead cfg s = Some nh" using candidateHead_Some by blast
  let ?wall = "activePowerUp s \<noteq> Some WRAP \<and> outOfBounds cfg nh"
  let ?self = "activePowerUp s \<noteq> Some GHOST \<and> nh \<in> set (snakeRef s)"
  show ?thesis
  proof (cases "?wall \<or> ?self")
    case True
    then have "loop_move cfg s = Some (Died, gameOver (s\<lparr>directionRef := nextDirectionRef s\<rparr>))"
      using loop_move_wall[OF nh] loop_move_self[OF nh] by blast
    with assms have "s' = gameOver (s\<lparr>directionRef := nextDirectionRef s\<rparr>)" by simp
    with nh True show ?thesis by (simp add: gameOver_fields)
  next
    case False
    then have a: "activePowerUp s = Some WRAP \<or> \<not> outOfBounds cfg nh"
      and b: "activePowerUp s = Some GHOST \<or> nh \<notin> set (snakeRef s)" by auto
    have "\<exists>g s''. loop_move cfg s = Some (Moved g, s'')"
    proof (cases "px nh = fx (foodRef s) \<and> py nh = fy (foodRef s)")
      case True
      from loop_move_eat[OF nh a b True] show ?thesis by blast
    next
      case False
      from loop_move_plain[OF nh a b False] show ?thesis by blast
    qed
    with assms show ?thesis by auto
  qed
qed


theorem died_unchanged_witness:
  "loop_move classic (scenario [\<lparr>px = 0, py = 10\<rparr>, \<lparr>px = 1, py = 10\<rparr>] \<lparr>px = -1, py = 0\<rparr> None) =
     Some (Died, gameOver (scenario [\<lparr>px = 0, py = 10\<rparr>, \<lparr>px = 1, py = 10\<rparr>] \<lparr>px = -1, py = 0\<rparr> None))
   \<and> snakeRef (gameOver (scenario [\<lparr>px = 0, py = 10\<rparr>, \<lparr>px = 1, py = 10\<rparr>] \<lparr>px = -1, py = 0\<rparr> None)) =
       [\<lparr>px = 0, py = 10\<rparr>, \<lparr>px = 1, py = 10\<rparr>]
   \<and> foodRef (gameOver (scenario [\<lparr>px = 0, py = 10\<rparr>, \<lparr>px = 1, py = 10\<rparr>] \<lparr>px = -1, py = 0\<rparr> None)) =
       \<lparr>fx = 15, fy = 10, ftype = F_NORMAL\<rparr>"
proof -
  let ?s = "scenario [\<lparr>px = 0, py = 10\<rparr>, \<lparr>px = 1, py = 10\<rparr>] \<lparr>px = -1, py = 0\<rparr> None"
  have c: "candidateHead classic ?s = Some \<lparr>px = -1, py = 10\<rparr>"
    by (simp add: candidateHead_def scenario_fields)
  have "loop_move classic ?s = Some (Died, gameOver (?s\<lparr>directionRef := nextDirectionRef ?s\<rparr>))"
    by (rule loop_move_wall[OF c]) (simp_all add: scenario_fields outOfBounds_def)
  then have d: "loop_move classic ?s = Some (Died, gameOver ?s)"
    by (simp add: scenario_commit)
  from died_unchanged[OF d] d show ?thesis by (simp add: scenario_fields)
qed

text \<open>
  Claim C3. With WRAP active, a candidate head beyond an edge is put on the opposite edge
  (x below 0 becomes width - 1, x from width on becomes 0, and the same for y), a coordinate
  inside its range is kept, the wrapped head is a cell of the grid, and the move update
  returns Died only when the wrapped head is a cell of the body, never for the wall.
\<close>

theorem wrap_reenters:
  assumes "activePowerUp s = Some WRAP" "snakeRef s = head # rest"
    and "0 < GRID_WIDTH cfg" "0 < GRID_HEIGHT cfg"
    and "nx = px head + px (nextDirectionRef s)" "ny = py head + py (nextDirectionRef s)"
  shows "\<exists>nh. candidateHead cfg s = Some nh
           \<and> 0 \<le> px nh \<and> px nh < GRID_WIDTH cfg \<and> 0 \<le> py nh \<and> py nh < GRID_HEIGHT cfg
           \<and> (nx < 0 \<longrightarrow> px nh = GRID_WIDTH cfg - 1)
           \<and> (nx \<ge> GRID_WIDTH cfg \<longrightarrow> px nh = 0)
           \<and> (0 \<le> nx \<and> nx < GRID_WIDTH cfg \<longrightarrow> px nh = nx)
           \<and> (ny < 0 \<longrightarrow> py nh = GRID_HEIGHT cfg - 1)
           \<and> (ny \<ge> GRID_HEIGHT cfg \<longrightarrow> py nh = 0)
           \<and> (0 \<le> ny \<and> ny < GRID_HEIGHT cfg \<longrightarrow> py nh = ny)
           \<and> (nh \<notin> set (snakeRef s) \<longrightarrow>
                 (\<exists>g s'. loop_move cfg s = Some (Moved g, s') \<and> hd (snakeRef s') = nh))
           \<and> (\<forall>s'. loop_move cfg s = Some (Died, s') \<longrightarrow> nh \<in> set (snakeRef s))"
proof -
  let ?nh = "wrapEdges cfg \<lparr>px = nx, py = ny\<rparr>"
  have c: "candidateHead cfg s = Some ?nh"
    using assms(1,2,5,6) by (simp add: candidateHead_def Let_def)
  have inside: "\<not> outOfBounds cfg ?nh" by (rule wrapEdges_inside[OF assms(3,4)])
  have moved: "?nh \<notin> set (snakeRef s) \<Longrightarrow>
      \<exists>g s'. loop_move cfg s = Some (Moved g, s') \<and> hd (snakeRef s') = ?nh"
    using loop_move_Moved[OF c] assms(1) by simp
  have died: "\<And>s'. loop_move cfg s = Some (Died, s') \<Longrightarrow> ?nh \<in> set (snakeRef s)"
    using loop_move_Died_only[OF c] assms(1) by auto
  have coords: "0 \<le> px ?nh \<and> px ?nh < GRID_WIDTH cfg \<and> 0 \<le> py ?nh \<and> py ?nh < GRID_HEIGHT cfg
           \<and> (nx < 0 \<longrightarrow> px ?nh = GRID_WIDTH cfg - 1)
           \<and> (nx \<ge> GRID_WIDTH cfg \<longrightarrow> px ?nh = 0)
           \<and> (0 \<le> nx \<and> nx < GRID_WIDTH cfg \<longrightarrow> px ?nh = nx)
           \<and> (ny < 0 \<longrightarrow> py ?nh = GRID_HEIGHT cfg - 1)
           \<and> (ny \<ge> GRID_HEIGHT cfg \<longrightarrow> py ?nh = 0)
           \<and> (0 \<le> ny \<and> ny < GRID_HEIGHT cfg \<longrightarrow> py ?nh = ny)"
    using assms(3,4) by (simp add: wrapEdges_fields)
  from c coords moved died show ?thesis by blast
qed

theorem wrap_reenters_witness:
  "\<exists>nh. candidateHead classic
           (scenario [\<lparr>px = 0, py = 10\<rparr>, \<lparr>px = 1, py = 10\<rparr>] \<lparr>px = -1, py = 0\<rparr> (Some WRAP)) = Some nh
        \<and> px nh = 29 \<and> py nh = 10
        \<and> (\<exists>g s'. loop_move classic
              (scenario [\<lparr>px = 0, py = 10\<rparr>, \<lparr>px = 1, py = 10\<rparr>] \<lparr>px = -1, py = 0\<rparr> (Some WRAP)) =
              Some (Moved g, s') \<and> hd (snakeRef s') = nh)"
proof -
  let ?s = "scenario [\<lparr>px = 0, py = 10\<rparr>, \<lparr>px = 1, py = 10\<rparr>] \<lparr>px = -1, py = 0\<rparr> (Some WRAP)"
  from wrap_reenters[of ?s "\<lparr>px = 0, py = 10\<rparr>" "[\<lparr>px = 1, py = 10\<rparr>]" classic "-1" 10]
  obtain nh where nh: "candidateHead classic ?s = Some nh" "px nh = 29" "py nh = 10"
    "nh \<notin> set (snakeRef ?s) \<longrightarrow>
       (\<exists>g s'. loop_move classic ?s = Some (Moved g, s') \<and> hd (snakeRef s') = nh)"
    by (auto simp: scenario_fields classic_def)
  from nh(2,3) have "nh \<notin> set (snakeRef ?s)" by (auto simp: scenario_fields)
  with nh show ?thesis by blast
qed

text \<open>
  Claim C4. With GHOST active, a candidate head that is a cell of the body and inside the
  grid gives Moved, not Died; a candidate head outside the grid gives Died; and Died is
  returned only for a head outside the grid.
\<close>

theorem ghost_passes_self:
  assumes "activePowerUp s = Some GHOST" "candidateHead cfg s = Some nh"
  shows "(nh \<in> set (snakeRef s) \<and> \<not> outOfBounds cfg nh \<longrightarrow>
            (\<exists>g s'. loop_move cfg s = Some (Moved g, s') \<and> hd (snakeRef s') = nh))
       \<and> (outOfBounds cfg nh \<longrightarrow> (\<exists>s'. loop_move cfg s = Some (Died, s')))
       \<and> (\<forall>s'. loop_move cfg s = Some (Died, s') \<longrightarrow> outOfBounds cfg nh)"
proof (intro conjI impI allI)
  assume "nh \<in> set (snakeRef s) \<and> \<not> outOfBounds cfg nh"
  then show "\<exists>g s'. loop_move cfg s = Some (Moved g, s') \<and> hd (snakeRef s') = nh"
    using loop_move_Moved[OF assms(2)] assms(1) by simp
next
  assume "outOfBounds cfg nh"
  then show "\<exists>s'. loop_move cfg s = Some (Died, s')"
    using loop_move_wall[OF assms(2)] assms(1) by simp
next
  fix s' assume "loop_move cfg s = Some (Died, s')"
  from loop_move_Died_only[OF assms(2) this] assms(1) show "outOfBounds cfg nh" by simp
qed

theorem ghost_passes_self_witness:
  "(\<exists>g s'. loop_move classic
       (scenario [\<lparr>px = 1, py = 1\<rparr>, \<lparr>px = 1, py = 2\<rparr>, \<lparr>px = 2, py = 2\<rparr>, \<lparr>px = 2, py = 1\<rparr>]
          \<lparr>px = 1, py = 0\<rparr> (Some GHOST)) = Some (Moved g, s')
       \<and> hd (snakeRef s') = \<lparr>px = 2, py = 1\<rparr>)
   \<and> (\<exists>s'. loop_move classic
       (scenario [\<lparr>px = 0, py = 10\<rparr>, \<lparr>px = 1, py = 10\<rparr>] \<lparr>px = -1, py = 0\<rparr> (Some GHOST)) =
       Some (Died, s'))"
proof -
  let ?a = "scenario [\<lparr>px = 1, py = 1\<rparr>, \<lparr>px = 1, py = 2\<rparr>, \<lparr>px = 2, py = 2\<rparr>, \<lparr>px = 2, py = 1\<rparr>]
          \<lparr>px = 1, py = 0\<rparr> (Some GHOST)"
  let ?b = "scenario [\<lparr>px = 0, py = 10\<rparr>, \<lparr>px = 1, py = 10\<rparr>] \<lparr>px = -1, py = 0\<rparr> (Some GHOST)"
  have "\<exists>g s'. loop_move classic ?a = Some (Moved g, s') \<and> hd (snakeRef s') = \<lparr>px = 2, py = 1\<rparr>"
    using ghost_passes_self[of ?a classic "\<lparr>px = 2, py = 1\<rparr>"]
    by (simp add: candidateHead_def scenario_fields outOfBounds_def classic_def)
  moreover have "\<exists>s'. loop_move classic ?b = Some (Died, s')"
    using ghost_passes_self[of ?b classic "\<lparr>px = -1, py = 10\<rparr>"]
    by (simp add: candidateHead_def scenario_fields outOfBounds_def classic_def)
  ultimately show ?thesis by blast
qed

text \<open>
  Claim C6. For a body of at least two cells without GHOST, a candidate head equal to the
  current tail cell gives Died, whether or not the snake would grow; the scan compares the
  candidate head with every cell of the body before the move, the current head and the
  tail included.
\<close>

theorem tail_cell_kills:
  assumes "2 \<le> length (snakeRef s)" "activePowerUp s \<noteq> Some GHOST"
    and "candidateHead cfg s = Some nh"
  shows "(nh = last (snakeRef s) \<longrightarrow>
            loop_move cfg s = Some (Died, gameOver (s\<lparr>directionRef := nextDirectionRef s\<rparr>)))
       \<and> (nh = hd (snakeRef s) \<longrightarrow>
            loop_move cfg s = Some (Died, gameOver (s\<lparr>directionRef := nextDirectionRef s\<rparr>)))
       \<and> (nh \<in> set (snakeRef s) \<longrightarrow>
            loop_move cfg s = Some (Died, gameOver (s\<lparr>directionRef := nextDirectionRef s\<rparr>)))
       \<and> hitsSelf nh (snakeRef s) = (nh \<in> set (snakeRef s))"
proof -
  from assms(1) have ne: "snakeRef s \<noteq> []" by auto
  then have "last (snakeRef s) \<in> set (snakeRef s)" "hd (snakeRef s) \<in> set (snakeRef s)" by simp_all
  then show ?thesis
    using loop_move_self[OF assms(3,2)] by (auto simp: hitsSelf_iff)
qed

theorem tail_cell_kills_witness:
  "loop_move classic
     (scenario [\<lparr>px = 1, py = 1\<rparr>, \<lparr>px = 1, py = 2\<rparr>, \<lparr>px = 2, py = 2\<rparr>, \<lparr>px = 2, py = 1\<rparr>]
        \<lparr>px = 1, py = 0\<rparr> None) =
   Some (Died, gameOver
     (scenario [\<lparr>px = 1, py = 1\<rparr>, \<lparr>px = 1, py = 2\<rparr>, \<lparr>px = 2, py = 2\<rparr>, \<lparr>px = 2, py = 1\<rparr>]
        \<lparr>px = 1, py = 0\<rparr> None))"
  using tail_cell_kills[of
      "scenario [\<lparr>px = 1, py = 1\<rparr>, \<lparr>px = 1, py = 2\<rparr>, \<lparr>px = 2, py = 2\<rparr>, \<lparr>px = 2, py = 1\<rparr>]
        \<lparr>px = 1, py = 0\<rparr> None" classic "\<lparr>px = 2, py = 1\<rparr>"]
  by (simp add: candidateHead_def scenario_fields scenario_commit)

section \<open>Direction commands\<close>

text \<open>
  Claim C5. While the state is PLAYING, a direction command is ignored exactly when the
  proposed direction has a nonzero component on an axis on which the active direction
  (\<^verbatim>\<open>directionRef\<close>, not the pending \<^verbatim>\<open>nextDirectionRef\<close>) is nonzero; otherwise it overwrites
  the pending direction. This holds for \<^verbatim>\<open>handleDirectionChange\<close> and for the arrow keys of
  both key handlers. Commands do not change the active direction, so after any list of
  commands the pending direction is the last legal one (or the old pending direction when
  none is legal), and the next move update makes it the active direction.
\<close>

theorem last_legal_command_wins:
  assumes "gameState s = PLAYING"
  shows "handleDirectionChange d s =
           (if sameAxisReversal (directionRef s) d then s else s\<lparr>nextDirectionRef := d\<rparr>)
       \<and> (arrowDirection k = Some d \<longrightarrow>
             handleKeyDown_classic k s = handleDirectionChange d s
             \<and> handleKeyDown_dashboard cfg k s = handleDirectionChange d s)
       \<and> directionRef (fold handleDirectionChange ds s) = directionRef s
       \<and> nextDirectionRef (fold handleDirectionChange ds s) =
             lastLegal (directionRef s) ds (nextDirectionRef s)
       \<and> fold handleKeyDown_classic ks s =
             fold handleDirectionChange (List.map_filter arrowDirection ks) s
       \<and> (Space \<notin> set ks \<longrightarrow>
             fold (handleKeyDown_dashboard cfg) ks s =
               fold handleDirectionChange (List.map_filter arrowDirection ks) s)
       \<and> (\<forall>r s'. loop_move cfg (fold handleDirectionChange ds s) = Some (r, s') \<longrightarrow>
             directionRef s' = lastLegal (directionRef s) ds (nextDirectionRef s))"
proof -
  have keys: "arrowDirection k = Some d \<longrightarrow>
             handleKeyDown_classic k s = handleDirectionChange d s
             \<and> handleKeyDown_dashboard cfg k s = handleDirectionChange d s"
  proof
    assume a: "arrowDirection k = Some d"
    then have "k \<noteq> Space" by auto
    with a classic_key[OF assms, of k] dashboard_key[OF assms, of k cfg]
    show "handleKeyDown_classic k s = handleDirectionChange d s
             \<and> handleKeyDown_dashboard cfg k s = handleDirectionChange d s" by simp
  qed
  have fc: "gameState t = PLAYING \<Longrightarrow> fold handleKeyDown_classic ks t =
             fold handleDirectionChange (List.map_filter arrowDirection ks) t" for t
  proof (induction ks arbitrary: t)
    case Nil
    show ?case by (simp add: List.map_filter_simps)
  next
    case (Cons k ks)
    show ?case
    proof (cases "arrowDirection k")
      case None
      with Cons show ?thesis by (simp add: List.map_filter_simps classic_key)
    next
      case (Some d)
      with Cons.prems Cons.IH[of "handleDirectionChange d t"] show ?thesis
        by (simp add: List.map_filter_simps classic_key handleDirectionChange_keeps)
    qed
  qed
  have fd: "gameState t = PLAYING \<Longrightarrow> Space \<notin> set ks \<Longrightarrow>
             fold (handleKeyDown_dashboard cfg) ks t =
             fold handleDirectionChange (List.map_filter arrowDirection ks) t" for t
  proof (induction ks arbitrary: t)
    case Nil
    show ?case by (simp add: List.map_filter_simps)
  next
    case (Cons k ks)
    from Cons.prems have ns: "k \<noteq> Space" "Space \<notin> set ks" by auto
    show ?case
    proof (cases "arrowDirection k")
      case None
      with Cons ns show ?thesis by (simp add: List.map_filter_simps dashboard_key)
    next
      case (Some d)
      with Cons.prems ns Cons.IH[of "handleDirectionChange d t"] show ?thesis
        by (simp add: List.map_filter_simps dashboard_key handleDirectionChange_keeps)
    qed
  qed
  have tick: "\<forall>r s'. loop_move cfg (fold handleDirectionChange ds s) = Some (r, s') \<longrightarrow>
             directionRef s' = lastLegal (directionRef s) ds (nextDirectionRef s)"
    using loop_move_commits[of cfg "fold handleDirectionChange ds s"]
    by (simp add: fold_hdc_pending)
  have fd': "Space \<notin> set ks \<longrightarrow>
             fold (handleKeyDown_dashboard cfg) ks s =
               fold handleDirectionChange (List.map_filter arrowDirection ks) s"
    using fd[OF assms] by blast
  from handleDirectionChange_eq[of d s] keys fold_hdc_keeps(1)[of ds s] fold_hdc_pending[of ds s]
    fc[OF assms] fd' tick
  show ?thesis by (intro conjI)
qed

theorem last_legal_command_wins_witness:
  "\<exists>r s'. loop_move classic
       (fold handleKeyDown_classic [ArrowUp, ArrowLeft, ArrowDown, ArrowRight]
          (scenario [\<lparr>px = 10, py = 10\<rparr>] \<lparr>px = 1, py = 0\<rparr> None)) = Some (r, s')
     \<and> directionRef s' = \<lparr>px = 0, py = 1\<rparr>"
proof -
  let ?s = "scenario [\<lparr>px = 10, py = 10\<rparr>] \<lparr>px = 1, py = 0\<rparr> None"
  let ?ds = "[\<lparr>px = 0, py = -1\<rparr>, \<lparr>px = -1, py = 0\<rparr>, \<lparr>px = 0, py = 1\<rparr>, \<lparr>px = 1, py = 0\<rparr>]"
  have p: "gameState ?s = PLAYING" by (simp add: scenario_def)
  note th = last_legal_command_wins[OF p, of "\<lparr>px = 0, py = 1\<rparr>" ArrowDown classic ?ds
      "[ArrowUp, ArrowLeft, ArrowDown, ArrowRight]"]
  from th have f0: "fold handleKeyDown_classic [ArrowUp, ArrowLeft, ArrowDown, ArrowRight] ?s =
      fold handleDirectionChange
        (List.map_filter arrowDirection [ArrowUp, ArrowLeft, ArrowDown, ArrowRight]) ?s"
    by blast
  then have f: "fold handleKeyDown_classic [ArrowUp, ArrowLeft, ArrowDown, ArrowRight] ?s =
      fold handleDirectionChange ?ds ?s"
    by (simp add: List.map_filter_simps)
  have ne: "snakeRef (fold handleDirectionChange ?ds ?s) \<noteq> []"
    by (simp add: handleDirectionChange_keeps scenario_fields)
  then obtain r s' where m: "loop_move classic (fold handleDirectionChange ?ds ?s) = Some (r, s')"
    using loop_move_None[of classic "fold handleDirectionChange ?ds ?s"] by (cases "loop_move classic (fold handleDirectionChange ?ds ?s)") auto
  with th have "directionRef s' = lastLegal (directionRef ?s) ?ds (nextDirectionRef ?s)" by blast
  then have "directionRef s' = \<lparr>px = 0, py = 1\<rparr>"
    by (simp add: lastLegal_def sameAxisReversal_def scenario_fields)
  with m f show ?thesis by auto
qed

section \<open>Reachable states\<close>

lemma gridOK_classic: "gridOK classic"
  by (simp add: gridOK_def classic_def outOfBounds_def)

lemma gridOK_dashboard: "gridOK dashboard"
  by (simp add: gridOK_def dashboard_def outOfBounds_def)

lemma unitDirection_simps:
  "unitDirection \<lparr>px = 1, py = 0\<rparr>" "unitDirection \<lparr>px = -1, py = 0\<rparr>"
  "unitDirection \<lparr>px = 0, py = 1\<rparr>" "unitDirection \<lparr>px = 0, py = -1\<rparr>"
  by (simp_all add: unitDirection_def)

lemma wf_initial: "gridOK cfg \<Longrightarrow> wellFormed cfg (initial stored draws)"
  by (simp add: wellFormed_def initial_def gridOK_def outOfBounds_def unitDirection_simps)

lemma resetGame_fields:
  "snakeRef (resetGame cfg s) = INITIAL_SNAKE cfg"
  "directionRef (resetGame cfg s) = \<lparr>px = 1, py = 0\<rparr>"
  "nextDirectionRef (resetGame cfg s) = \<lparr>px = 1, py = 0\<rparr>"
  by (simp_all add: resetGame_def Let_def spawnFood_fields)

lemma wf_resetGame: "gridOK cfg \<Longrightarrow> wellFormed cfg (resetGame cfg s)"
  by (simp add: wellFormed_def resetGame_fields gridOK_def unitDirection_simps)

lemma wf_hdc:
  assumes "wellFormed cfg s" "unitDirection d"
  shows "wellFormed cfg (handleDirectionChange d s)"
  using assms by (simp add: wellFormed_def handleDirectionChange_eq)

lemma wf_togglePause: "wellFormed cfg s \<Longrightarrow> wellFormed cfg (togglePause s)"
  by (simp add: wellFormed_def togglePause_def)

lemma wf_key_classic: "wellFormed cfg s \<Longrightarrow> wellFormed cfg (handleKeyDown_classic k s)"
  by (simp add: wellFormed_def handleKeyDown_classic_def Let_def unitDirection_simps)

lemma wf_key_dashboard:
  assumes "gridOK cfg" "wellFormed cfg s"
  shows "wellFormed cfg (handleKeyDown_dashboard cfg k s)"
proof (cases "k = Space")
  case True
  then show ?thesis using assms
    by (simp add: handleKeyDown_dashboard_def wf_resetGame wf_togglePause)
next
  case False
  show ?thesis
  proof (cases "gameState s = PLAYING")
    case True
    from dashboard_key[OF True False, of cfg] assms(2) show ?thesis
      by (cases k) (simp_all add: wf_hdc unitDirection_simps)
  next
    case np: False
    with False assms(2) show ?thesis by (simp add: handleKeyDown_dashboard_def)
  qed
qed

lemma wf_touchStart: "wellFormed cfg s \<Longrightarrow> wellFormed cfg (handleTouchStart a b s)"
  by (simp add: wellFormed_def handleTouchStart_def)

lemma wf_touch_update: "wellFormed cfg s \<Longrightarrow> wellFormed cfg (s\<lparr>touchStartRef := v\<rparr>)"
  by (simp add: wellFormed_def)

lemma wf_touchEnd: "wellFormed cfg s \<Longrightarrow> wellFormed cfg (handleTouchEnd a b s)"
  by (simp add: handleTouchEnd_def Let_def wf_touch_update wf_hdc unitDirection_simps
      split: option.splits prod.splits)

lemma wf_padDirection: "unitDirection (padDirection pad)"
  by (cases pad) (simp_all add: unitDirection_simps)

lemma wf_loop_move:
  assumes "wellFormed cfg s" "0 < GRID_WIDTH cfg" "0 < GRID_HEIGHT cfg"
    and "loop_move cfg s = Some (r, s')"
  shows "wellFormed cfg s'"
proof -
  from assms(1) have ne: "snakeRef s \<noteq> []"
    and inb: "\<forall>p \<in> set (snakeRef s). \<not> outOfBounds cfg p"
    and un: "unitDirection (nextDirectionRef s)" by (simp_all add: wellFormed_def)
  from ne obtain nh where nh: "candidateHead cfg s = Some nh" using candidateHead_Some by blast
  have dir: "directionRef s' = nextDirectionRef s" by (rule loop_move_commits[OF assms(4)])
  show ?thesis
  proof (cases "(activePowerUp s \<noteq> Some WRAP \<and> outOfBounds cfg nh)
       \<or> (activePowerUp s \<noteq> Some GHOST \<and> nh \<in> set (snakeRef s))")
    case True
    then have "loop_move cfg s = Some (Died, gameOver (s\<lparr>directionRef := nextDirectionRef s\<rparr>))"
      using loop_move_wall[OF nh] loop_move_self[OF nh] by blast
    with assms(4) have "s' = gameOver (s\<lparr>directionRef := nextDirectionRef s\<rparr>)" by simp
    with ne inb un show ?thesis by (simp add: wellFormed_def gameOver_fields)
  next
    case False
    then have a: "activePowerUp s = Some WRAP \<or> \<not> outOfBounds cfg nh"
      and b: "activePowerUp s = Some GHOST \<or> nh \<notin> set (snakeRef s)" by auto
    have nhin: "\<not> outOfBounds cfg nh"
    proof (cases "activePowerUp s = Some WRAP")
      case True
      with nh ne show ?thesis
        by (cases "snakeRef s") (auto simp: candidateHead_def Let_def wrapEdges_inside[OF assms(2,3)])
    next
      case False
      with a show ?thesis by simp
    qed
    show ?thesis
    proof (cases "px nh = fx (foodRef s) \<and> py nh = fy (foodRef s)")
      case True
      from loop_move_eat[OF nh a b True] assms(4)
      have "snakeRef s' = nh # snakeRef s" "nextDirectionRef s' = nextDirectionRef s" by auto
      with dir inb un nhin show ?thesis by (simp add: wellFormed_def)
    next
      case False
      from loop_move_plain[OF nh a b False] assms(4)
      have "s' = s\<lparr>directionRef := nextDirectionRef s, snakeRef := butlast (nh # snakeRef s)\<rparr>" by simp
      with ne inb un nhin show ?thesis
        by (auto simp: wellFormed_def dest: in_set_butlastD)
    qed
  qed
qed


lemma wf_loop:
  assumes "wellFormed cfg s" "0 < GRID_WIDTH cfg" "0 < GRID_HEIGHT cfg"
    and "loop cfg time s = Some s'"
  shows "wellFormed cfg s'"
proof (cases "time - lastRenderTimeRef s > speedRef s")
  case True
  with assms(4) obtain r where m: "loop_move cfg (s\<lparr>lastRenderTimeRef := time\<rparr>) = Some (r, s')"
    by (auto simp: loop_def Let_def)
  have "wellFormed cfg (s\<lparr>lastRenderTimeRef := time\<rparr>)"
    using assms(1) by (simp add: wellFormed_def)
  from wf_loop_move[OF this assms(2,3) m] show ?thesis .
next
  case False
  with assms(1,4) show ?thesis by (simp add: loop_def Let_def)
qed

lemma wf_rerender: "wellFormed cfg s' \<Longrightarrow> wellFormed cfg (rerender s s')"
  by (simp add: wellFormed_def rerender_def)

lemma wf_timeout:
  "wellFormed cfg s \<Longrightarrow> wellFormed cfg (s\<lparr>activePowerUp := None, powerUpTimeoutRef := False\<rparr>)"
  by (simp add: wellFormed_def)

lemma wf_handle:
  assumes "gridOK cfg" "wellFormed cfg s" "handle cfg ev s = Some s'"
  shows "wellFormed cfg s'"
proof -
  from assms(1) have pos: "0 < GRID_WIDTH cfg" "0 < GRID_HEIGHT cfg" by (simp_all add: gridOK_def)
  show ?thesis
  proof (cases ev)
    case (AnimationFrame time)
    with assms(2,3) wf_loop[OF assms(2) pos] show ?thesis
      by (auto simp: handle_def split: if_splits)
  next
    case (KeyDown k)
    with assms show ?thesis
      by (auto simp: handle_def wf_key_classic wf_key_dashboard)
  next
    case PowerUpTimeout
    with assms show ?thesis by (auto simp: handle_def wf_timeout)
  next
    case ClickOverlay
    with assms show ?thesis by (auto simp: handle_def wf_resetGame wf_togglePause)
  next
    case ClickAction
    with assms show ?thesis by (auto simp: handle_def wf_resetGame wf_togglePause)
  next
    case ClickPlayAgain
    with assms show ?thesis by (auto simp: handle_def wf_resetGame)
  next
    case (PointerDown pad)
    with assms show ?thesis by (auto simp: handle_def wf_hdc wf_padDirection)
  next
    case (TouchStart a b)
    with assms show ?thesis by (auto simp: handle_def wf_touchStart)
  next
    case (TouchEnd a b)
    with assms show ?thesis by (auto simp: handle_def wf_touchEnd)
  qed
qed

lemma reachable_wf:
  assumes "gridOK cfg" "reachable cfg s"
  shows "wellFormed cfg s"
  using assms(2)
proof (induction rule: reachable.induct)
  case (reachable_initial stored draws)
  show ?case by (rule wf_initial[OF assms(1)])
next
  case (reachable_dispatch s ev s')
  from reachable_dispatch.hyps(2) obtain t where t: "handle cfg ev s = Some t" "s' = rerender s t"
    by (auto simp: dispatch_def)
  from wf_handle[OF assms(1) reachable_dispatch.IH t(1)] t(2) show ?case
    by (simp add: wf_rerender)
qed

lemma unit_moves:
  assumes "unitDirection d"
  shows "\<lparr>px = px h + px d, py = py h + py d\<rparr> \<noteq> h"
  using assms by (auto simp: unitDirection_def Point_eq_iff)

lemma wrapped_unit_moves:
  assumes "unitDirection d" "\<not> outOfBounds cfg h" "2 \<le> GRID_WIDTH cfg" "2 \<le> GRID_HEIGHT cfg"
  shows "wrapEdges cfg \<lparr>px = px h + px d, py = py h + py d\<rparr> \<noteq> h"
proof -
  have pos: "0 < GRID_WIDTH cfg" "0 < GRID_HEIGHT cfg" using assms(3,4) by simp_all
  show ?thesis
    using assms by (auto simp: unitDirection_def Point_eq_iff outOfBounds_def wrapEdges_fields[OF pos])
qed

text \<open>
  Claim C10. In every reachable state of either variant the pending direction, which the
  move update commits first, is one of the four unit vectors; so the candidate head, before
  and after wrapping, is not the current head cell; and when the body is a single cell the
  scan for a self-collision finds nothing: a move update that returns Died there does so
  for the wall.
\<close>

theorem reachable_head_moves:
  assumes "cfg = classic \<or> cfg = dashboard" "reachable cfg s"
  shows "unitDirection (nextDirectionRef s)
       \<and> (\<exists>head rest nh. snakeRef s = head # rest
             \<and> \<lparr>px = px head + px (nextDirectionRef s), py = py head + py (nextDirectionRef s)\<rparr> \<noteq> head
             \<and> candidateHead cfg s = Some nh \<and> nh \<noteq> head
             \<and> (rest = [] \<longrightarrow>
                   \<not> hitsSelf nh (snakeRef s)
                   \<and> (\<forall>s'. loop_move cfg s = Some (Died, s') \<longrightarrow>
                         activePowerUp s \<noteq> Some WRAP \<and> outOfBounds cfg nh)))"
proof -
  from assms(1) have ok: "gridOK cfg" using gridOK_classic gridOK_dashboard by auto
  then have big: "2 \<le> GRID_WIDTH cfg" "2 \<le> GRID_HEIGHT cfg" by (simp_all add: gridOK_def)
  from reachable_wf[OF ok assms(2)] have wf: "wellFormed cfg s" .
  then have un: "unitDirection (nextDirectionRef s)" by (simp add: wellFormed_def)
  from wf obtain head rest where sn: "snakeRef s = head # rest"
    by (cases "snakeRef s") (auto simp: wellFormed_def)
  with wf have hin: "\<not> outOfBounds cfg head" by (simp add: wellFormed_def)
  let ?raw = "\<lparr>px = px head + px (nextDirectionRef s), py = py head + py (nextDirectionRef s)\<rparr>"
  let ?nh = "if activePowerUp s = Some WRAP then wrapEdges cfg ?raw else ?raw"
  have c: "candidateHead cfg s = Some ?nh" using sn by (simp add: candidateHead_def Let_def)
  have raw: "?raw \<noteq> head" by (rule unit_moves[OF un])
  have ne: "?nh \<noteq> head" using raw wrapped_unit_moves[OF un hin big] by simp
  have single: "rest = [] \<longrightarrow>
                   \<not> hitsSelf ?nh (snakeRef s)
                   \<and> (\<forall>s'. loop_move cfg s = Some (Died, s') \<longrightarrow>
                         activePowerUp s \<noteq> Some WRAP \<and> outOfBounds cfg ?nh)"
  proof
    assume r: "rest = []"
    with sn ne have notin: "?nh \<notin> set (snakeRef s)" by simp
    then have "\<not> hitsSelf ?nh (snakeRef s)" by (simp only: hitsSelf_iff not_False_eq_True)
    moreover have "\<forall>s'. loop_move cfg s = Some (Died, s') \<longrightarrow>
                         activePowerUp s \<noteq> Some WRAP \<and> outOfBounds cfg ?nh"
      using loop_move_Died_only[OF c] notin by blast
    ultimately show "\<not> hitsSelf ?nh (snakeRef s)
                   \<and> (\<forall>s'. loop_move cfg s = Some (Died, s') \<longrightarrow>
                         activePowerUp s \<noteq> Some WRAP \<and> outOfBounds cfg ?nh)" by blast
  qed
  from un sn raw c ne single show ?thesis by blast
qed

theorem reachable_head_moves_witness:
  "unitDirection (nextDirectionRef (initial 0 (\<lambda>n. 0)))
   \<and> candidateHead classic (initial 0 (\<lambda>n. 0)) = Some \<lparr>px = 11, py = 10\<rparr>
   \<and> \<not> hitsSelf \<lparr>px = 11, py = 10\<rparr> (snakeRef (initial 0 (\<lambda>n. 0)))"
proof -
  have r: "reachable classic (initial 0 (\<lambda>n. 0))" by (rule reachable_initial)
  from reachable_head_moves[of classic, OF _ r] show ?thesis
    by (auto simp: initial_def candidateHead_def)
qed

section \<open>Game over and the high score\<close>

text \<open>
  Claim C7. The claim: at the transition to GAME\_OVER the high score is updated, stored and
  celebrated exactly when the score of the finished game is greater than the stored high
  score. In the session below the game ends with score 10 against a high score of 0, and
  nothing is updated: \<^verbatim>\<open>gameOver\<close> compares the score its closure holds, which is still
  the 0 of the render that started the game, since eating a NORMAL food changes neither
  \<^verbatim>\<open>gameState\<close> nor \<^verbatim>\<open>activePowerUp\<close>.
\<close>

theorem stale_score_at_game_over:
  "map_option (\<lambda>s. (gameState s, score s, highScore s, localStorage s, confetti s))
     (run classic session_events (initial 0 session_draws)) = Some (GAME_OVER, 10, 0, 0, 0)"
  by (simp add: session_events_def session_draws_def initial_def classic_def dispatch_def handle_def
      rerender_def loop_def loop_move_def resetGame_def spawnFood_def Math_random_def gameOver_def
      handleKeyDown_classic_def activatePowerUp_def outOfBounds_def wrapEdges_def INITIAL_SPEED_def Let_def
      cells_of_draws times64_0 round64_085 round64_070)

section \<open>Where the food is spawned\<close>

lemma loop_move_food:
  assumes "loop_move cfg s = Some (Moved g, s')"
  shows "foodRef s' = (if g then foodRef (spawnFood cfg s) else foodRef s)"
proof -
  from assms have "snakeRef s \<noteq> []" using loop_move_None[of cfg s] by auto
  then obtain head rest where sn: "snakeRef s = head # rest" by (cases "snakeRef s") auto
  from assms sn show ?thesis
    by (auto simp: loop_move_def Let_def spawnFood_fields activatePowerUp_fields
        split: if_splits)
qed

text \<open>
  Claim C8. The claim: a newly spawned food is never on a cell of the snake. It fails:
  \<^verbatim>\<open>spawnFood\<close> does not look at the body. With the draws below, starting a game of
  \<^verbatim>\<open>GameCanvas.tsx\<close> puts the food at (10, 10), the one cell of the new snake.
\<close>

theorem food_on_snake_counterexample:
  "map_option (\<lambda>s. (foodRef s, snakeRef s)) (dispatch classic ClickOverlay (initial 0 reset_draws)) =
     Some (\<lparr>fx = 10, fy = 10, ftype = F_NORMAL\<rparr>, [\<lparr>px = 10, py = 10\<rparr>])"
  by (simp add: reset_draws_def initial_def classic_def dispatch_def handle_def
      rerender_def resetGame_def spawnFood_def Math_random_def INITIAL_SPEED_def Let_def
      cells_of_draws round64_085 round64_070)

text \<open>
  Claim C8, amended. A newly spawned food, on reset and after each consumption, is on the
  cell of the grid that the draws (binary64 numbers in [0,1)) give, whatever the body is:
  the cell does not depend on the snake and can be one of its cells. A move update that
  does not grow leaves the food as it is.
\<close>

theorem spawn_ignores_snake:
  assumes "unitDraw (rng s 1)" "unitDraw (rng s 2)"
    and "0 < GRID_WIDTH cfg" "GRID_WIDTH cfg \<le> 2 ^ 53"
    and "0 < GRID_HEIGHT cfg" "GRID_HEIGHT cfg \<le> 2 ^ 53"
  shows "foodRef (resetGame cfg s) = foodRef (spawnFood cfg s)
       \<and> (\<forall>g s'. loop_move cfg s = Some (Moved g, s') \<longrightarrow>
             foodRef s' = (if g then foodRef (spawnFood cfg s) else foodRef s))
       \<and> foodRef (spawnFood cfg (s\<lparr>snakeRef := body\<rparr>)) = foodRef (spawnFood cfg s)
       \<and> \<not> outOfBounds cfg \<lparr>px = fx (foodRef (spawnFood cfg s)), py = fy (foodRef (spawnFood cfg s))\<rparr>"
proof -
  have a: "foodRef (resetGame cfg s) = foodRef (spawnFood cfg s)"
    by (simp add: resetGame_def Let_def spawnFood_fields)
  have b: "\<forall>g s'. loop_move cfg s = Some (Moved g, s') \<longrightarrow>
             foodRef s' = (if g then foodRef (spawnFood cfg s) else foodRef s)"
    using loop_move_food by blast
  have c: "foodRef (spawnFood cfg (s\<lparr>snakeRef := body\<rparr>)) = foodRef (spawnFood cfg s)"
    by (simp add: spawnFood_fields)
  have d: "\<not> outOfBounds cfg \<lparr>px = fx (foodRef (spawnFood cfg s)), py = fy (foodRef (spawnFood cfg s))\<rparr>"
  proof -
    have w: "1 \<le> GRID_WIDTH cfg" and h: "1 \<le> GRID_HEIGHT cfg" using assms(3,5) by simp_all
    from cell_in_grid[OF assms(1) w assms(4)] cell_in_grid[OF assms(2) h assms(6)]
    show ?thesis by (simp add: outOfBounds_def spawnFood_fields)
  qed
  from a b c d show ?thesis by blast
qed

theorem spawn_ignores_snake_witness:
  "foodRef (resetGame classic (initial 0 reset_draws)) = \<lparr>fx = 10, fy = 10, ftype = F_NORMAL\<rparr>
   \<and> foodRef (spawnFood classic ((initial 0 reset_draws)\<lparr>snakeRef := [\<lparr>px = 3, py = 3\<rparr>]\<rparr>)) =
       \<lparr>fx = 10, fy = 10, ftype = F_NORMAL\<rparr>"
  using spawn_ignores_snake[of "initial 0 reset_draws" classic "[\<lparr>px = 3, py = 3\<rparr>]"]
  by (simp add: initial_def reset_draws_def classic_def spawnFood_fields unitDraws cells_of_draws
      round64_085 round64_070)

end
